theory Spec2Isabelle
  imports Main
begin

section \<open>onewaymirror: the data model\<close>

text \<open>
  The theory embeds the connection-handling engine of onewaymirror (the Go program with
  session logging): \<open>main\<close>'s banner configuration and dispatch loop, \<open>handleConn\<close>,
  \<open>waitConn\<close>, \<open>waitDead\<close>, \<open>proxyBytes\<close>, \<open>logSession\<close>, \<open>openLogFile\<close> and
  \<open>logPacket\<close>.

  Go strings and byte slices are \<open>string\<close> (lists of 8-bit characters). Everything the
  network, the file system and the scheduler decide is an explicit input: the results of
  the calls \<open>Read\<close>, \<open>Write\<close>, \<open>DialTCP\<close>, \<open>MkdirAll\<close>, \<open>OpenFile\<close> are
  given as scripts, and a function returns the events its goroutine performs together
  with the point at which it stops. A goroutine that waits for a result the script does
  not hold is reported as blocked there.
\<close>

abbreviation NL :: char where "NL \<equiv> CHR 0x0A"
abbreviation TAB :: char where "TAB \<equiv> CHR 0x09"

subsection \<open>Decimal formatting (the verb \<open>%v\<close> on an int)\<close>

definition digitChar :: "nat \<Rightarrow> char" where
  "digitChar d = ''0123456789'' ! d"

fun showNat :: "nat \<Rightarrow> string" where
  "showNat n = (if n < 10 then [digitChar n] else showNat (n div 10) @ [digitChar (n mod 10)])"

declare showNat.simps [simp del]

definition showInt :: "int \<Rightarrow> string" where
  "showInt i = (if i < 0 then CHR ''-'' # showNat (nat (- i)) else showNat (nat i))"

subsection \<open>Addresses and connections\<close>

text \<open>
  A \<open>net.Addr\<close> is an interface value: a \<open>*net.TCPAddr\<close> or anything else (nil
  included). \<open>IP\<close> holds the address bytes, \<open>Port\<close> a Go int.
\<close>

record tcpaddr =
  IP :: string
  Port :: int
  Zone :: string

datatype addr = TCP tcpaddr | NotTCP string

record conn =
  RemoteAddr :: addr
  LocalAddr :: addr

text \<open>The two sockets of a session: \<open>R\<close> the accepted connection, \<open>T\<close> the connect-back one.\<close>

datatype handle = R | T

text \<open>
  Library functions the program calls and this theory does not interpret: \<open>fmt\<close>'s
  \<open>%v\<close> on an address, \<open>IP.String\<close> and \<open>path.Join\<close>.
\<close>

record golib =
  fmtAddr :: "addr \<Rightarrow> string"
  ipString :: "string \<Rightarrow> string"
  pathJoin :: "string \<Rightarrow> string \<Rightarrow> string"

subsection \<open>\<open>main\<close>: the banner\<close>

text \<open>
  \<^verbatim>\<open>if len(*banner) > 0 { *banner += "\n" }\<close>
\<close>

definition configBanner :: "string \<Rightarrow> string" where
  "configBanner text = (if 0 < length text then text @ [NL] else text)"

subsection \<open>\<open>proxyBytes\<close>\<close>

text \<open>
  The error of a \<open>Read\<close>: \<open>io.EOF\<close>, a \<open>*net.OpError\<close> with the text its
  \<open>Error\<close> method returns, or any other error with its type name (the verb \<open>%T\<close>)
  and its text. The error of a \<open>Write\<close>: a \<open>net.Error\<close> with the value of its
  \<open>Temporary\<close> method and its text, or an error that is no \<open>net.Error\<close>.
\<close>

datatype rerror = EOF | OpError string | OtherError string string

datatype werror = NetError bool string | PlainError string

type_synonym rresult = "string \<times> rerror option"

type_synonym pwresult = "nat \<times> werror option"

text \<open>
  The send \<open>logc <- packet{buf, n}\<close> on the unbuffered channel. The environment decides
  each send: the logger receives the packet (\<open>Received\<close>), or the channel has been
  closed by the deferred \<open>close\<close> of \<open>handleConn\<close> and the send panics
  (\<open>SinkClosed\<close>). The packet holds the slice \<open>buf\<close>, not a copy of its bytes: the
  logger takes the payload from the buffer when \<open>logPacket\<close> writes it, while the
  direction goes on. \<open>Received late\<close> tells when that is: before the direction's next
  \<open>Read\<close> returns (\<open>late\<close> false), or after it has stored its bytes in the buffer
  (\<open>late\<close> true). A nil channel is \<open>None\<close>, a channel \<open>Some\<close> of the results of
  the sends on it.
\<close>

datatype send_result = Received bool | SinkClosed

text \<open>
  The events of one direction: a \<open>Read\<close> on a handle with the bytes it stored in the
  buffer and the error it returned, a log line, a packet \<open>packet{buf, n}\<close> received
  from \<open>logc\<close> (with the buffer as it is at the send), the logger taking the payload
  of a packet of this direction (\<open>PTaken b n\<close>: the buffer as it is then, and the
  packet's length), a call \<open>Write(p)\<close> on a handle with the count it returned, a value
  sent on \<open>done\<close>. The events are those the goroutine performs when each of its sends
  on \<open>done\<close> is received.
\<close>

datatype p_event =
    PRead handle string "rerror option"
  | PLog string
  | PPacket string nat
  | PTaken string nat
  | PWrite handle string nat
  | PDone handle

datatype p_status = Stopped rerror | BlockedRead | BlockedSend | BlockedWrite | Panicked

datatype w_status = WDone | WBroke | WPending

record pstate =
  buf :: string
  nread :: int
  nwritten :: int

text \<open>\<^verbatim>\<open>strings.HasSuffix(s, suffix)\<close>\<close>

definition HasSuffix :: "string \<Rightarrow> string \<Rightarrow> bool" where
  "HasSuffix s suffix =
     (length suffix \<le> length s \<and> drop (length s - length suffix) s = suffix)"

text \<open>\<^verbatim>\<open>rws = fmt.Sprintf("%v read / %v written", read, written)\<close>\<close>

definition urws :: "int \<Rightarrow> int \<Rightarrow> string" where
  "urws nr nw = showInt nr @ '' read / '' @ showInt nw @ '' written''"

text \<open>
  The branch \<open>if err != nil\<close> of the read loop; every path of it ends in \<open>break\<close>.
  \<^verbatim>\<open>
  if err == io.EOF {
      log.Printf("Connection ended (%v): %v", rws, cstr); done <- src; break
  } else if e, ok := err.(*net.OpError); ok {
      if strings.HasSuffix(e.Error(), "use of closed network connection") {
          log.Printf("Connection closed (%v): %v", rws, cstr)
      } else if strings.HasSuffix(e.Error(), "connection reset by peer") {
          log.Printf("Connection reset (%v): %v", rws, cstr)
      }
      break
  } else {
      log.Printf("Unknown error of type %T (%v): %v", err, rws, err); done <- src; break
  }\<close>
\<close>

definition readFailed :: "handle \<Rightarrow> string \<Rightarrow> string \<Rightarrow> rerror \<Rightarrow> p_event list" where
  "readFailed src cstr rws err =
     (case err of
        EOF \<Rightarrow> [PLog (''Connection ended ('' @ rws @ ''): '' @ cstr), PDone src]
      | OpError txt \<Rightarrow>
          (if HasSuffix txt ''use of closed network connection''
           then [PLog (''Connection closed ('' @ rws @ ''): '' @ cstr)]
           else if HasSuffix txt ''connection reset by peer''
           then [PLog (''Connection reset ('' @ rws @ ''): '' @ cstr)]
           else [])
      | OtherError ty txt \<Rightarrow>
          [PLog (''Unknown error of type '' @ ty @ '' ('' @ rws @ ''): '' @ txt), PDone src])"

text \<open>
  The write loop, from \<open>start\<close> to \<open>end\<close> of the buffer. It returns its events, the
  counter \<open>written\<close>, the write results it has not used, and how it ended: the
  condition \<open>start < end\<close> failed, the \<open>break\<close> was taken, or a \<open>Write\<close> is pending.
  \<^verbatim>\<open>
  for start < end {
      n, err := dst.Write(buf[start:end])
      written += n
      urws()
      if e, ok := err.(net.Error); ok {
          if !e.Temporary() {
              log.Printf("Error writing to %v: %v", cstr, err)
              done <- dst
              break
          }
      }
      start += n
  }\<close>
\<close>

fun writeLoop :: "handle \<Rightarrow> string \<Rightarrow> string \<Rightarrow> nat \<Rightarrow> nat \<Rightarrow> int \<Rightarrow> pwresult list
    \<Rightarrow> p_event list \<times> int \<times> pwresult list \<times> w_status" where
  "writeLoop dst cstr b start end nw [] =
     (if start < end then ([], nw, [], WPending) else ([], nw, [], WDone))"
| "writeLoop dst cstr b start end nw ((n, err) # ws) =
     (if start < end then
        (case err of
           Some (NetError False txt) \<Rightarrow>
             ([PWrite dst (take (end - start) (drop start b)) n,
               PLog (''Error writing to '' @ cstr @ '': '' @ txt), PDone dst],
              nw + int n, ws, WBroke)
         | _ \<Rightarrow>
             (case writeLoop dst cstr b (start + n) end (nw + int n) ws of
                (evs, nw', ws', st) \<Rightarrow>
                  (PWrite dst (take (end - start) (drop start b)) n # evs, nw', ws', st)))
      else ([], nw, (n, err) # ws, WDone))"

text \<open>
  \<^verbatim>\<open>if logc != nil { logc <- packet{buf, n} }\<close>
  The send with the buffer \<open>b\<close> and the count \<open>n\<close>: nothing on a nil channel;
  waiting while no result of the send is there; the panic of a send on a closed channel;
  or the packet received, with the length of the payload the logger has still to take
  from the buffer when it takes it late, and the channel's remaining results.
\<close>

datatype send_outcome =
    Sent "p_event list" "nat option" "send_result list option"
  | SendPending
  | SendPanic

definition sendPacket :: "send_result list option \<Rightarrow> string \<Rightarrow> nat \<Rightarrow> send_outcome" where
  "sendPacket logc b n =
     (case logc of
        None \<Rightarrow> Sent [] None None
      | Some [] \<Rightarrow> SendPending
      | Some (SinkClosed # ss) \<Rightarrow> SendPanic
      | Some (Received late # ss) \<Rightarrow>
          (if late then Sent [PPacket b n] (Some n) (Some ss)
           else Sent [PPacket b n, PTaken b n] None (Some ss)))"

text \<open>
  The logger taking from the buffer \<open>b\<close> the payload of a packet it received before
  and has not written yet (\<open>pend\<close> holds the packet's length).
\<close>

definition taken :: "nat option \<Rightarrow> string \<Rightarrow> p_event list" where
  "taken pend b = (case pend of Some m \<Rightarrow> [PTaken b m] | None \<Rightarrow> [])"

text \<open>
  The read loop. \<open>Read(buf)\<close> stores at most \<open>len(buf)\<close> bytes at the start of the
  buffer; a payload the logger takes late is taken from the buffer after that. After the
  write loop, however it ended, the loop reads again.
\<close>

fun proxyLoop :: "handle \<Rightarrow> handle \<Rightarrow> string \<Rightarrow> send_result list option \<Rightarrow> pstate
    \<Rightarrow> nat option \<Rightarrow> rresult list \<Rightarrow> pwresult list \<Rightarrow> p_event list \<times> p_status" where
  "proxyLoop src dst cstr logc st pend [] ws = (taken pend (buf st), BlockedRead)"
| "proxyLoop src dst cstr logc st pend ((d, err) # rs) ws =
     (let got = take (length (buf st)) d;
          n = length got;
          b = got @ drop n (buf st);
          nr = nread st + int n
      in case err of
           Some e \<Rightarrow>
             (PRead src got err # taken pend b
                @ readFailed src cstr (urws nr (nwritten st)) e, Stopped e)
         | None \<Rightarrow>
             (case sendPacket logc b n of
                SendPending \<Rightarrow> (PRead src got err # taken pend b, BlockedSend)
              | SendPanic \<Rightarrow> (PRead src got err # taken pend b, Panicked)
              | Sent sev pend' logc' \<Rightarrow>
                  (case writeLoop dst cstr b 0 n (nwritten st) ws of
                     (wev, nw, ws', wst) \<Rightarrow>
                       (if wst = WPending
                        then (PRead src got err # taken pend b @ sev @ wev @ taken pend' b,
                              BlockedWrite)
                        else (case proxyLoop src dst cstr logc'
                                     \<lparr>buf = b, nread = nr, nwritten = nw\<rparr> pend' rs ws' of
                                (evs, s) \<Rightarrow>
                                  (PRead src got err # taken pend b @ sev @ wev @ evs, s))))))"

text \<open>
  \<^verbatim>\<open>buf := make([]byte, buflen)\<close> panics on a negative length.
\<close>

definition proxyBytes :: "handle \<Rightarrow> handle \<Rightarrow> int \<Rightarrow> string \<Rightarrow> send_result list option
    \<Rightarrow> rresult list \<Rightarrow> pwresult list \<Rightarrow> p_event list \<times> p_status" where
  "proxyBytes src dst buflen cstr logc rs ws =
     (if buflen < 0 then ([], Panicked)
      else proxyLoop src dst cstr logc
             \<lparr>buf = replicate (nat buflen) (CHR 0x00), nread = 0, nwritten = 0\<rparr> None rs ws)"

text \<open>The values a trace sends on \<open>done\<close>, and the packets it sends on \<open>logc\<close>.\<close>

fun doneSent :: "p_event list \<Rightarrow> handle list" where
  "doneSent [] = []"
| "doneSent (PDone h # evs) = h # doneSent evs"
| "doneSent (_ # evs) = doneSent evs"

text \<open>The bytes the reads of a trace returned without an error, in order.\<close>

fun readOK :: "p_event list \<Rightarrow> string" where
  "readOK [] = []"
| "readOK (PRead h got None # evs) = got @ readOK evs"
| "readOK (_ # evs) = readOK evs"

subsection \<open>\<open>handleConn\<close>\<close>

text \<open>
  The result of one \<open>Write\<close>: the count it returns and its error (\<open>None\<close> is nil).
\<close>

type_synonym wresult = "nat \<times> string option"

datatype h_event =
    HLog string
  | HWrite string nat
  | HDial tcpaddr
  | HGoLogSession string string
  | HGoProxy handle handle string bool
  | HRecvDone
  | HCloseChan bool
  | HClose handle

datatype h_outcome = HReturned | HBlocked

datatype banner_status = BannerSent | BannerFailed string | BannerPending

text \<open>
  \<^verbatim>\<open>
  s := 0
  for s < l {
      n, err := r.Write([]byte(banner))
      if err != nil { log.Printf(...); return }
      s += n
  }\<close>
  Every iteration hands the whole banner to \<open>Write\<close>. \<open>HWrite p n\<close> is a call
  \<open>r.Write(p)\<close> that returned \<open>n\<close>.
\<close>

fun sendBanner :: "string \<Rightarrow> nat \<Rightarrow> wresult list \<Rightarrow> h_event list \<times> banner_status" where
  "sendBanner banner s [] =
     (if s < length banner then ([], BannerPending) else ([], BannerSent))"
| "sendBanner banner s ((n, err) # ws) =
     (if s < length banner then
        (case err of
           Some e \<Rightarrow> ([HWrite banner n], BannerFailed e)
         | None \<Rightarrow>
             (case sendBanner banner (s + n) ws of
                (evs, st) \<Rightarrow> (HWrite banner n # evs, st)))
      else ([], BannerSent))"

text \<open>
  What the environment of one \<open>handleConn\<close> call decides: the results of the banner
  writes, the result of \<open>net.DialTCP\<close> for a target (an error or the new connection),
  the result of the write of the diagnostic, the time, the results of the reads and
  writes of the two directions (\<open>readsR\<close> and \<open>writesT\<close> for the direction from
  \<open>R\<close> to \<open>T\<close>, \<open>readsT\<close> and \<open>writesR\<close> for the other), and the results of
  their sends on the channels \<open>in\<close> and \<open>out\<close> when the session is logged.
\<close>

record henv =
  bannerWrites :: "wresult list"
  dial :: "tcpaddr \<Rightarrow> string + conn"
  diagWrite :: wresult
  now :: string
  readsR :: "rresult list"
  writesT :: "pwresult list"
  readsT :: "rresult list"
  writesR :: "pwresult list"
  sendsIn :: "send_result list"
  sendsOut :: "send_result list"

text \<open>
  \<^verbatim>\<open><-done\<close>: the handler receives one value, whichever direction sends first, and
  does not look at it. A value arrives when one of the two directions sends one; the
  first send of a direction needs no earlier send of it to have been received.
\<close>

definition doneArrives :: "p_event list \<Rightarrow> p_event list \<Rightarrow> bool" where
  "doneArrives tr1 tr2 = (doneSent tr1 @ doneSent tr2 \<noteq> [])"


text \<open>The bytes a peer has received through the writes of a trace.\<close>

fun received :: "h_event list \<Rightarrow> string" where
  "received [] = []"
| "received (HWrite p n # evs) = take n p @ received evs"
| "received (_ # evs) = received evs"

text \<open>
  \<open>handleConn\<close>, with the deferred calls (\<open>r.Close\<close>, \<open>t.Close\<close>, \<open>close(in)\<close>,
  \<open>close(out)\<close>) run in reverse order of their \<open>defer\<close> at each return.
  \<open>logdir\<close> is \<open>None\<close> for the nil pointer (logging disabled). \<open>connectBack\<close> is
  the part of \<open>handleConn\<close> from \<open>net.DialTCP\<close> on.
\<close>

definition connectBack :: "golib \<Rightarrow> conn \<Rightarrow> int \<Rightarrow> string option \<Rightarrow> henv \<Rightarrow> string \<Rightarrow> tcpaddr
    \<Rightarrow> tcpaddr \<Rightarrow> h_event list \<times> h_outcome" where
  "connectBack L r buflen logdir env constr rad ta =
     (case dial env ta of
        Inl err \<Rightarrow>
          (let e = ''Unable to connect back to '' @ fmtAddr L (TCP ta) in
           ([HDial ta, HLog (e @ '': '' @ err), HWrite (e @ [NL]) (fst (diagWrite env))]
            @ (case snd (diagWrite env) of
                 Some werr \<Rightarrow>
                   [HLog (''Unable to tell '' @ fmtAddr L (TCP rad)
                      @ '' a connection can't be established to '' @ fmtAddr L (TCP ta) @ '': '' @ werr)]
               | None \<Rightarrow> [])
            @ [HClose R], HReturned))
      | Inr t \<Rightarrow>
          (let tgtstr = fmtAddr L (LocalAddr t) @ '' -> '' @ fmtAddr L (RemoteAddr t);
               logging = (case logdir of
                   Some d \<Rightarrow> [HGoLogSession (pathJoin L d (ipString L (IP ta))) (now env)]
                 | None \<Rightarrow> []);
               start = [HDial ta, HLog (''Connection made: '' @ tgtstr)] @ logging
                 @ [HGoProxy R T constr (logdir \<noteq> None), HGoProxy T R tgtstr (logdir \<noteq> None)]
           in if doneArrives
                   (fst (proxyBytes R T buflen constr
                      (if logdir \<noteq> None then Some (sendsIn env) else None)
                      (readsR env) (writesT env)))
                   (fst (proxyBytes T R buflen tgtstr
                      (if logdir \<noteq> None then Some (sendsOut env) else None)
                      (readsT env) (writesR env)))
              then
                (start @ [HRecvDone]
                   @ (if logdir \<noteq> None then [HCloseChan False, HCloseChan True] else [])
                   @ [HClose T, HClose R], HReturned)
              else (start, HBlocked)))"

definition handleConn :: "golib \<Rightarrow> conn \<Rightarrow> int \<Rightarrow> string \<Rightarrow> string option \<Rightarrow> henv
    \<Rightarrow> h_event list \<times> h_outcome" where
  "handleConn L r buflen banner logdir env =
     (let constr = fmtAddr L (RemoteAddr r) @ '' -> '' @ fmtAddr L (LocalAddr r);
          got = [HLog (''Connection got: '' @ constr)]
      in case (if 0 < length banner then sendBanner banner 0 (bannerWrites env)
               else ([], BannerSent)) of
           (bev, BannerPending) \<Rightarrow> (got @ bev, HBlocked)
         | (bev, BannerFailed e) \<Rightarrow>
             (got @ bev @ [HLog (''Unable to send banner to '' @ fmtAddr L (RemoteAddr r)
                 @ '': '' @ e), HClose R], HReturned)
         | (bev, BannerSent) \<Rightarrow>
             (case RemoteAddr r of
                NotTCP x \<Rightarrow>
                  (got @ bev @ [HLog (fmtAddr L (RemoteAddr r)
                     @ '' is not a TCP address.  Please file a bug report.''), HClose R], HReturned)
              | TCP rad \<Rightarrow>
                  (case LocalAddr r of
                     NotTCP x \<Rightarrow>
                       (got @ bev @ [HLog (fmtAddr L (LocalAddr r)
                          @ '' is not a TCP address.  Please file a bug report.''), HClose R],
                        HReturned)
                   | TCP lad \<Rightarrow>
                       (case connectBack L r buflen logdir env constr rad
                               \<lparr>IP = IP rad, Port = Port lad, Zone = []\<rparr> of
                          (cev, out) \<Rightarrow> (got @ bev @ cev, out)))))"

text \<open>The sockets a trace closes, in order.\<close>

fun closes :: "h_event list \<Rightarrow> handle list" where
  "closes [] = []"
| "closes (HClose h # evs) = h # closes evs"
| "closes (_ # evs) = closes evs"


text \<open>The targets a trace dials.\<close>

fun dialled :: "h_event list \<Rightarrow> tcpaddr list" where
  "dialled [] = []"
| "dialled (HDial ta # evs) = ta # dialled evs"
| "dialled (_ # evs) = dialled evs"

subsection \<open>The session logger: \<open>packet\<close>, \<open>openLogFile\<close>, \<open>logPacket\<close>, \<open>logSession\<close>\<close>

text \<open>\<^verbatim>\<open>type packet struct { data []byte; length int }\<close>\<close>

record packet =
  data :: string
  plength :: int

text \<open>
  A \<open>time.Time\<close>, by the three values \<open>logPacket\<close> reads from it:
  \<open>t.Format(time.StampNano)\<close>, \<open>t.Unix()\<close> and \<open>t.Nanosecond()\<close>.
\<close>

record gotime =
  stampNano :: string
  unix :: int
  nanosecond :: int

text \<open>
  An open \<open>*os.File\<close>: its name, the bytes appended to it and whether it has been
  closed. A nil \<open>*os.File\<close> is \<open>None\<close>. The environment decides each \<open>Write\<close> on
  an open file: it stores all the bytes (\<open>WAll\<close>), or only the first \<open>k\<close> and fails
  (\<open>WShort k err\<close>). A \<open>Write\<close> on a closed file stores nothing and fails.
\<close>

record ofile =
  fname :: string
  contents :: string
  fclosed :: bool

datatype fwrite = WAll | WShort nat string

definition fileWrite :: "ofile \<Rightarrow> string \<Rightarrow> fwrite \<Rightarrow> ofile \<times> nat \<times> string option" where
  "fileWrite f b w =
     (if fclosed f then (f, 0, Some ''file already closed'')
      else case w of
             WAll \<Rightarrow> (f\<lparr>contents := contents f @ b\<rparr>, length b, None)
           | WShort k err \<Rightarrow> (f\<lparr>contents := contents f @ take k b\<rparr>, min k (length b), Some err))"

definition fileClose :: "ofile \<Rightarrow> ofile" where
  "fileClose f = f\<lparr>fclosed := True\<rparr>"

text \<open>
  The file system as \<open>openLogFile\<close> meets it: the paths that exist, the error of
  \<open>os.MkdirAll\<close> on a directory, and the error of \<open>os.OpenFile\<close> on a path that does
  not exist. With \<open>O_CREATE|O_EXCL\<close> the call fails on a path that exists.
\<close>

record fsys =
  existing :: "string set"
  mkdirErr :: "string \<Rightarrow> string option"
  openErr :: "string \<Rightarrow> string option"

datatype open_result = OFatal string | Opened "ofile option" "string list"

text \<open>
  \<^verbatim>\<open>
  if err := os.MkdirAll(dir, 0755); err != nil {
      log.Fatalf("Unable to create directory %v: %v", dir, err)
  }
  f, err := os.OpenFile(path.Join(dir, name),
      os.O_WRONLY|os.O_APPEND|os.O_CREATE|os.O_EXCL, 0644)
  if err != nil {
      log.Printf("Unable to open %v: %v", name, err)
      return nil
  }
  return f\<close>
  \<open>OFatal\<close> is \<open>log.Fatalf\<close>: the process exits. \<open>Opened f msgs\<close> is the return of
  \<open>f\<close> after the log lines \<open>msgs\<close>.
\<close>

definition OpenFile_excl :: "fsys \<Rightarrow> string \<Rightarrow> string + ofile" where
  "OpenFile_excl fs p =
     (if p \<in> existing fs then Inl ''file exists''
      else case openErr fs p of
             Some err \<Rightarrow> Inl err
           | None \<Rightarrow> Inr \<lparr>fname = p, contents = [], fclosed = False\<rparr>)"

definition openLogFile :: "golib \<Rightarrow> fsys \<Rightarrow> string \<Rightarrow> string \<Rightarrow> open_result" where
  "openLogFile L fs dir name =
     (case mkdirErr fs dir of
        Some err \<Rightarrow> OFatal (''Unable to create directory '' @ dir @ '': '' @ err)
      | None \<Rightarrow>
          (case OpenFile_excl fs (pathJoin L dir name) of
             Inl err \<Rightarrow> Opened None [''Unable to open '' @ name @ '': '' @ err]
           | Inr f \<Rightarrow> Opened (Some f) []))"

text \<open>
  \<open>logPacket\<close>. \<open>Logged f msgs\<close> is its return, with the file as it leaves it and the
  lines it logged; \<open>LPanic f\<close> is the panic of the slice expression
  \<open>p.data[0:p.length]\<close> when \<open>p.length\<close> is negative or beyond the slice (whose
  capacity is its length, as \<open>make([]byte, buflen)\<close> builds it).
  \<^verbatim>\<open>
  if f == nil { return }
  var dc rune
  if d { dc = 'i' } else { dc = 'o' }
  s := fmt.Sprintf("\n%v\t%v.%v\t%c\t%v\t", t.Format(time.StampNano),
      t.Unix(), t.Nanosecond(), dc, p.length)
  if n, err := f.Write([]byte(s)); err != nil {
      log.Printf("Only wrote %v/%v bytes of metadata to %v: %v", n, len(s), f.Name(), err)
      f.Close()
  }
  if n, err := f.Write(p.data[0:p.length]); err != nil {
      log.Printf("Only wrote %v/%v bytes of payload data to %v: %v", n, p.length, f.Name(), err)
      f.Close()
  }\<close>
\<close>

datatype lp_result = Logged "ofile option" "string list" | LPanic "ofile option"

definition metadata :: "packet \<Rightarrow> bool \<Rightarrow> gotime \<Rightarrow> string" where
  "metadata p d t =
     NL # stampNano t @ TAB # showInt (unix t) @ CHR ''.'' # showInt (nanosecond t)
       @ TAB # (if d then CHR ''i'' else CHR ''o'') # TAB # showInt (plength p) @ [TAB]"

definition logPacket :: "ofile option \<Rightarrow> packet \<Rightarrow> bool \<Rightarrow> gotime \<Rightarrow> fwrite \<Rightarrow> fwrite \<Rightarrow> lp_result" where
  "logPacket f p d t w1 w2 =
     (case f of
        None \<Rightarrow> Logged None []
      | Some fl \<Rightarrow>
          (let s = metadata p d t in
           case fileWrite fl s w1 of
             (f1, n1, e1) \<Rightarrow>
               (let f2 = (case e1 of Some err \<Rightarrow> fileClose f1 | None \<Rightarrow> f1);
                    m1 = (case e1 of
                        Some err \<Rightarrow>
                          [''Only wrote '' @ showInt (int n1) @ ''/'' @ showInt (int (length s))
                             @ '' bytes of metadata to '' @ fname fl @ '': '' @ err]
                      | None \<Rightarrow> [])
                in if plength p < 0 \<or> int (length (data p)) < plength p then LPanic (Some f2)
                   else case fileWrite f2 (take (nat (plength p)) (data p)) w2 of
                          (f3, n2, e2) \<Rightarrow>
                            (case e2 of
                               Some err \<Rightarrow>
                                 Logged (Some (fileClose f3))
                                   (m1 @ [''Only wrote '' @ showInt (int n2) @ ''/''
                                      @ showInt (plength p) @ '' bytes of payload data to ''
                                      @ fname fl @ '': '' @ err])
                             | None \<Rightarrow> Logged (Some f3) m1))))"

text \<open>
  What the \<open>select\<close> of \<open>logSession\<close> receives, one step per iteration: a packet from
  \<open>in\<close> (\<open>True\<close>) or \<open>out\<close> (\<open>False\<close>), with the time \<open>time.Now()\<close> returns and what
  the two writes of \<open>logPacket\<close> do; or the end of a closed channel (\<open>ok\<close> false).
\<close>

datatype lstep = Got bool packet gotime fwrite fwrite | ChanClosed bool

text \<open>
  The logger stops at the \<open>break\<close> (\<open>LExited\<close>), waits in the \<open>select\<close> with the flags
  \<open>iclosed\<close> and \<open>oclosed\<close> (\<open>LWaiting\<close>), panics, or ends the process (\<open>LFatal\<close>).
  \<^verbatim>\<open>
  for {
      if iclosed && oclosed { break }
      select {
      case p, ok := <-in:
          if !ok { iclosed = true; continue }
          t := time.Now()
          logPacket(olog, p, true, t)
      case p, ok := <-out:
          if !ok { oclosed = true; continue }
          t := time.Now()
          logPacket(olog, p, false, t)
      }
  }\<close>
\<close>

datatype l_result =
    LExited "ofile option"
  | LWaiting "ofile option" bool bool
  | LPanicked "ofile option"
  | LFatal string

fun logLoop :: "ofile option \<Rightarrow> bool \<Rightarrow> bool \<Rightarrow> lstep list \<Rightarrow> l_result" where
  "logLoop f iclosed oclosed [] =
     (if iclosed \<and> oclosed then LExited f else LWaiting f iclosed oclosed)"
| "logLoop f iclosed oclosed (ChanClosed d # steps) =
     (if iclosed \<and> oclosed then LExited f
      else if d then logLoop f True oclosed steps
      else logLoop f iclosed True steps)"
| "logLoop f iclosed oclosed (Got d p t w1 w2 # steps) =
     (if iclosed \<and> oclosed then LExited f
      else case logPacket f p d t w1 w2 of
             Logged f' msgs \<Rightarrow> logLoop f' iclosed oclosed steps
           | LPanic f' \<Rightarrow> LPanicked f')"

text \<open>
  \<open>logSession\<close>: the file is \<open>prefix + ".owm"\<close> in \<open>dir\<close>; \<open>defer olog.Close()\<close>
  runs when the loop is left.
\<close>

definition logSession :: "golib \<Rightarrow> fsys \<Rightarrow> string \<Rightarrow> string \<Rightarrow> lstep list \<Rightarrow> l_result" where
  "logSession L fs dir prefix steps =
     (case openLogFile L fs dir (prefix @ ''.owm'') of
        OFatal msg \<Rightarrow> LFatal msg
      | Opened olog msgs \<Rightarrow>
          (case logLoop olog False False steps of
             LExited f \<Rightarrow> LExited (map_option fileClose f)
           | res \<Rightarrow> res))"

subsection \<open>\<open>waitConn\<close>, \<open>waitDead\<close> and the dispatch loop of \<open>main\<close>\<close>

text \<open>
  The goroutines of \<open>main\<close> as a transition system. A listener goroutine (\<open>waitConn\<close>)
  is blocked in \<open>AcceptTCP\<close>, blocked in \<open>ch <- c\<close>, blocked in \<open>dead <- 1\<close> after
  \<open>close(ch)\<close>, or has returned; a family whose listener was not started has a nil
  channel. \<open>ndead\<close> is the counter \<open>i\<close> of \<open>waitDead\<close>, \<open>nlis\<close> its bound \<open>n\<close>.
  \<open>handled\<close> lists the arguments of the calls \<open>go handleConn(c, ...)\<close>, \<open>None\<close> for a
  nil \<open>*net.TCPConn\<close>; \<open>fatal\<close> is set by \<open>log.Fatalf("All listeners have terminated")\<close>.
\<close>

datatype fam = V4 | V6

datatype chan = NilChan | OpenChan | ClosedChan

datatype listener_state = NotStarted | Accepting | Delivering conn | Dying | Gone

record mstate =
  lis :: "fam \<Rightarrow> listener_state"
  ch :: "fam \<Rightarrow> chan"
  nlis :: nat
  ndead :: nat
  handled :: "conn option list"
  fatal :: bool

text \<open>
  The start of \<open>main\<close>: \<open>None\<close> is a \<open>log.Fatalf\<close> (both families disabled, or
  \<open>listener\<close> failing to bind, which is fatal inside \<open>listener\<close>).
\<close>

definition startMain :: "bool \<Rightarrow> bool \<Rightarrow> (fam \<Rightarrow> bool) \<Rightarrow> mstate option" where
  "startMain disable4 disable6 binds =
     (if disable4 \<and> disable6 then None
      else if \<not> disable4 \<and> \<not> binds V4 then None
      else if \<not> disable6 \<and> \<not> binds V6 then None
      else Some \<lparr>lis = (\<lambda>k. if (case k of V4 \<Rightarrow> disable4 | V6 \<Rightarrow> disable6)
                           then NotStarted else Accepting),
                 ch = (\<lambda>k. if (case k of V4 \<Rightarrow> disable4 | V6 \<Rightarrow> disable6)
                           then NilChan else OpenChan),
                 nlis = (if disable4 then 0 else 1) + (if disable6 then 0 else 1),
                 ndead = 0, handled = [], fatal = False\<rparr>)"

text \<open>
  The steps. \<open>accept\<close> and \<open>accept_fail\<close> are the two results of \<open>l.AcceptTCP()\<close>; on
  the error \<open>waitConn\<close> runs \<open>close(ch)\<close> and then waits in \<open>dead <- 1\<close>.
  \<open>deliver\<close> is the rendezvous of \<open>ch <- c\<close> with the \<open>select\<close> of \<open>main\<close>, which
  starts \<open>handleConn(c)\<close>. \<open>recv_closed\<close> is the \<open>select\<close> receiving from a closed
  channel: the receive does not block and yields the zero value, nil, which \<open>main\<close>
  hands to \<open>handleConn\<close>. \<open>death\<close> is the rendezvous of \<open>dead <- 1\<close> with \<open><-in\<close> in
  \<open>waitDead\<close>; \<open>all_dead\<close> is the rendezvous of \<open>out <- 1\<close> with \<open><-allDead\<close>.
\<close>

inductive step :: "mstate \<Rightarrow> mstate \<Rightarrow> bool" where
  accept: "\<not> fatal s \<Longrightarrow> lis s k = Accepting \<Longrightarrow>
     step s (s\<lparr>lis := (lis s)(k := Delivering c)\<rparr>)"
| accept_fail: "\<not> fatal s \<Longrightarrow> lis s k = Accepting \<Longrightarrow>
     step s (s\<lparr>lis := (lis s)(k := Dying), ch := (ch s)(k := ClosedChan)\<rparr>)"
| deliver: "\<not> fatal s \<Longrightarrow> lis s k = Delivering c \<Longrightarrow>
     step s (s\<lparr>lis := (lis s)(k := Accepting), handled := handled s @ [Some c]\<rparr>)"
| recv_closed: "\<not> fatal s \<Longrightarrow> ch s k = ClosedChan \<Longrightarrow>
     step s (s\<lparr>handled := handled s @ [None]\<rparr>)"
| death: "\<not> fatal s \<Longrightarrow> lis s k = Dying \<Longrightarrow> ndead s < nlis s \<Longrightarrow>
     step s (s\<lparr>lis := (lis s)(k := Gone), ndead := ndead s + 1\<rparr>)"
| all_dead: "\<not> fatal s \<Longrightarrow> ndead s = nlis s \<Longrightarrow>
     step s (s\<lparr>fatal := True\<rparr>)"

subsection \<open>Packets sent and packets logged\<close>

text \<open>
  The packets of a direction as the logger finds them when \<open>logPacket\<close> takes their
  payload, and the bytes it takes from a packet, \<open>p.data[0:p.length]\<close>. A packet is
  well formed when that slice expression does not panic.
\<close>

fun takenPackets :: "p_event list \<Rightarrow> packet list" where
  "takenPackets [] = []"
| "takenPackets (PTaken b n # evs) = \<lparr>data = b, plength = int n\<rparr> # takenPackets evs"
| "takenPackets (_ # evs) = takenPackets evs"

definition payload :: "packet \<Rightarrow> string" where
  "payload p = take (nat (plength p)) (data p)"

definition wfPacket :: "packet \<Rightarrow> bool" where
  "wfPacket p = (0 \<le> plength p \<and> plength p \<le> int (length (data p)))"

text \<open>
  Of the steps of the logger: the packets received from one channel, the bytes of the
  records \<open>logPacket\<close> builds for them, and the direction character and payload of
  each.
\<close>

fun gotPackets :: "bool \<Rightarrow> lstep list \<Rightarrow> packet list" where
  "gotPackets d [] = []"
| "gotPackets d (Got d' p t w1 w2 # steps) =
     (if d' = d then p # gotPackets d steps else gotPackets d steps)"
| "gotPackets d (ChanClosed d' # steps) = gotPackets d steps"

fun recordsOf :: "lstep list \<Rightarrow> string" where
  "recordsOf [] = []"
| "recordsOf (Got d p t w1 w2 # steps) = metadata p d t @ payload p @ recordsOf steps"
| "recordsOf (ChanClosed d # steps) = recordsOf steps"

fun taggedOf :: "lstep list \<Rightarrow> (char \<times> string) list" where
  "taggedOf [] = []"
| "taggedOf (Got d p t w1 w2 # steps) = (if d then CHR ''i'' else CHR ''o'', payload p) # taggedOf steps"
| "taggedOf (ChanClosed d # steps) = taggedOf steps"

text \<open>
  Conditions on the steps of the logger. \<open>chanOrder\<close>: no packet is received from a
  channel after its end was (a closed channel holds no value). \<open>allWritten\<close>: every
  write to the file succeeds. \<open>stampsPlain\<close>: no timestamp text holds a tab (the layout
  \<open>time.StampNano\<close> has none). \<open>wfSteps\<close>: every packet is well formed.
\<close>

fun chanOrder :: "bool \<Rightarrow> bool \<Rightarrow> lstep list \<Rightarrow> bool" where
  "chanOrder ic oc [] = True"
| "chanOrder ic oc (ChanClosed d # steps) = chanOrder (ic \<or> d) (oc \<or> \<not> d) steps"
| "chanOrder ic oc (Got d p t w1 w2 # steps) =
     (\<not> (if d then ic else oc) \<and> chanOrder ic oc steps)"

fun allWritten :: "lstep list \<Rightarrow> bool" where
  "allWritten [] = True"
| "allWritten (Got d p t w1 w2 # steps) = (w1 = WAll \<and> w2 = WAll \<and> allWritten steps)"
| "allWritten (ChanClosed d # steps) = allWritten steps"

fun stampsPlain :: "lstep list \<Rightarrow> bool" where
  "stampsPlain [] = True"
| "stampsPlain (Got d p t w1 w2 # steps) = (TAB \<notin> set (stampNano t) \<and> stampsPlain steps)"
| "stampsPlain (ChanClosed d # steps) = stampsPlain steps"

fun wfSteps :: "lstep list \<Rightarrow> bool" where
  "wfSteps [] = True"
| "wfSteps (Got d p t w1 w2 # steps) = (wfPacket p \<and> wfSteps steps)"
| "wfSteps (ChanClosed d # steps) = wfSteps steps"

text \<open>The file the logger holds when it stops or waits.\<close>

fun resultFile :: "l_result \<Rightarrow> ofile option" where
  "resultFile (LExited f) = f"
| "resultFile (LWaiting f ic oc) = f"
| "resultFile (LPanicked f) = f"
| "resultFile (LFatal msg) = None"

subsection \<open>Reading a replay file\<close>

text \<open>
  The reader of the replay format, written from the format the specification gives (it
  is no part of the program): a file is a sequence of records, each a newline, the
  timestamp up to a tab, the seconds and nanoseconds up to a tab, the direction
  character, a tab, the payload length in decimal up to a tab, and that many payload
  bytes. \<open>replayRecords\<close> returns the direction character and payload of every record,
  in file order, or \<open>None\<close> for a file that is not of this form; \<open>replayPayloads\<close>
  concatenates the payloads of the records with a given direction character.
\<close>

fun splitTab :: "string \<Rightarrow> (string \<times> string) option" where
  "splitTab [] = None"
| "splitTab (c # cs) =
     (if c = TAB then Some ([], cs)
      else case splitTab cs of None \<Rightarrow> None | Some (a, b) \<Rightarrow> Some (c # a, b))"

definition digitVal :: "char \<Rightarrow> nat option" where
  "digitVal c = (if c \<in> set ''0123456789'' then Some (of_char c - 48) else None)"

fun parseDigits :: "nat \<Rightarrow> string \<Rightarrow> nat option" where
  "parseDigits acc [] = Some acc"
| "parseDigits acc (c # cs) =
     (case digitVal c of None \<Rightarrow> None | Some v \<Rightarrow> parseDigits (10 * acc + v) cs)"

definition parseNat :: "string \<Rightarrow> nat option" where
  "parseNat s = (if s = [] then None else parseDigits 0 s)"

function replayRecords :: "string \<Rightarrow> (char \<times> string) list option" where
  "replayRecords [] = Some []"
| "replayRecords (c # cs) =
     (if c \<noteq> NL then None
      else case splitTab cs of
        None \<Rightarrow> None
      | Some (stamp, r1) \<Rightarrow>
          (case splitTab r1 of
             None \<Rightarrow> None
           | Some (secs, r2) \<Rightarrow>
               (case r2 of
                  dc # tb # r3 \<Rightarrow>
                    (if tb \<noteq> TAB then None
                     else case splitTab r3 of
                       None \<Rightarrow> None
                     | Some (len, r4) \<Rightarrow>
                         (case parseNat len of
                            None \<Rightarrow> None
                          | Some n \<Rightarrow>
                              (if length r4 < n then None
                               else map_option ((#) (dc, take n r4))
                                      (replayRecords (drop n r4)))))
                | _ \<Rightarrow> None)))"
  by pat_completeness auto
termination
proof (relation "measure length", goal_cases)
  case 1
  show ?case by simp
next
  case (2 c cs x2 stamp r1 x2a secs r2 dc list tb r3 x2b len r4 n)
  have shorter: "splitTab s = Some (a, b) \<Longrightarrow> length b < length s" for s a b
    by (induction s arbitrary: a b) (auto split: if_splits option.splits)
  from 2 show ?case
    using shorter[of cs stamp r1] shorter[of r1 secs r2] shorter[of r3 len r4]
    by auto
qed

definition replayPayloads :: "char \<Rightarrow> string \<Rightarrow> string option" where
  "replayPayloads dc file =
     map_option (\<lambda>recs. concat (map snd (filter (\<lambda>r. fst r = dc) recs))) (replayRecords file)"

section \<open>Properties\<close>

lemma dialled_append: "dialled (xs @ ys) = dialled xs @ dialled ys"
  by (induction xs rule: dialled.induct) simp_all

lemma dialled_connectBack:
  "dialled (fst (connectBack L r buflen logdir env constr rad ta)) = [ta]"
  by (auto simp: connectBack_def Let_def dialled_append split: sum.splits option.splits if_splits)

lemma dialled_sendBanner: "dialled (fst (sendBanner banner s ws)) = []"
  by (induction banner s ws rule: sendBanner.induct) (auto split: option.splits prod.splits)

subsection \<open>The connect-back target\<close>

text \<open>
  C1. For a connection whose remote and local addresses are both TCP addresses, the
  handler dials exactly one target once the banner phase is over (no banner, or the
  banner loop left without an error), and none otherwise. The target has the IP of the
  connection's remote address and the port of its local address, the port the
  connection was accepted on; the remote port is not used.
\<close>

theorem handleConn_target:
  assumes "RemoteAddr r = TCP rad" and "LocalAddr r = TCP lad"
  shows "dialled (fst (handleConn L r buflen banner logdir env)) =
     (if banner = [] \<or> snd (sendBanner banner 0 (bannerWrites env)) = BannerSent
      then [\<lparr>IP = IP rad, Port = Port lad, Zone = []\<rparr>] else [])"
proof (cases "banner = []")
  case True
  then show ?thesis
    by (simp add: handleConn_def Let_def assms split_beta dialled_append dialled_connectBack)
next
  case False
  obtain bev bst where B: "sendBanner banner 0 (bannerWrites env) = (bev, bst)"
    by (cases "sendBanner banner 0 (bannerWrites env)") auto
  have bev: "dialled bev = []"
    using B dialled_sendBanner[of banner 0 "bannerWrites env"] by simp
  show ?thesis
    using False
    by (cases bst)
      (simp_all add: handleConn_def Let_def B assms split_beta dialled_append bev
         dialled_connectBack)
qed

theorem handleConn_target_witness:
  "dialled (fst (handleConn
      \<lparr>fmtAddr = (\<lambda>a. []), ipString = (\<lambda>b. b), pathJoin = (\<lambda>d n. d @ ''/'' @ n)\<rparr>
      \<lparr>RemoteAddr = TCP \<lparr>IP = ''10.0.0.7'', Port = 40000, Zone = []\<rparr>,
        LocalAddr = TCP \<lparr>IP = ''10.0.0.1'', Port = 23, Zone = []\<rparr>\<rparr> 1024 (configBanner ''hi'') None
      \<lparr>bannerWrites = [(3, None)], dial = (\<lambda>ta. Inl ''connection refused''),
        diagWrite = (0, None), now = [], readsR = [], writesT = [], readsT = [], writesR = [],
        sendsIn = [], sendsOut = []\<rparr>))
   = [\<lparr>IP = ''10.0.0.7'', Port = 23, Zone = []\<rparr>]"
  using handleConn_target[of "\<lparr>RemoteAddr = TCP \<lparr>IP = ''10.0.0.7'', Port = 40000, Zone = []\<rparr>,
        LocalAddr = TCP \<lparr>IP = ''10.0.0.1'', Port = 23, Zone = []\<rparr>\<rparr>"
      "\<lparr>IP = ''10.0.0.7'', Port = 40000, Zone = []\<rparr>" "\<lparr>IP = ''10.0.0.1'', Port = 23, Zone = []\<rparr>"
      "\<lparr>fmtAddr = (\<lambda>a. []), ipString = (\<lambda>b. b), pathJoin = (\<lambda>d n. d @ ''/'' @ n)\<rparr>"
      1024 "configBanner ''hi''" None
      "\<lparr>bannerWrites = [(3, None)], dial = (\<lambda>ta. Inl ''connection refused''),
        diagWrite = (0, None), now = [], readsR = [], writesT = [], readsT = [], writesR = [],
        sendsIn = [], sendsOut = []\<rparr>"]
  by (simp add: configBanner_def)

subsection \<open>The banner\<close>





lemma received_append: "received (xs @ ys) = received xs @ received ys"
  by (induction xs rule: received.induct) simp_all



subsection \<open>The read loop and its errors\<close>

text \<open>
  What the branch for a read error sends on \<open>done\<close>: nothing for a \<open>*net.OpError\<close>,
  whatever its text, and \<open>src\<close> for every other error.
\<close>

lemma readFailed_done:
  "doneSent (readFailed src cstr rws e) = (case e of OpError txt \<Rightarrow> [] | _ \<Rightarrow> [src])"
  by (cases e) (simp_all add: readFailed_def)

text \<open>
  C3. A \<open>*net.OpError\<close> whose text ends in neither "use of closed network
  connection" nor "connection reset by peer" is a read error other than the two the
  loop names. On it the direction stops with no log line and with no value on \<open>done\<close>,
  where the branch for the other errors logs and sends \<open>src\<close>.
\<close>

theorem proxyBytes_OpError_other_text:
  "\<not> HasSuffix ''read tcp c:40000: connection timed out'' ''use of closed network connection''
   \<and> \<not> HasSuffix ''read tcp c:40000: connection timed out'' ''connection reset by peer''
   \<and> proxyBytes R T 1024 ''c'' None
        [([], Some (OpError ''read tcp c:40000: connection timed out''))] []
       = ([PRead R [] (Some (OpError ''read tcp c:40000: connection timed out''))],
          Stopped (OpError ''read tcp c:40000: connection timed out''))
   \<and> doneSent [PRead R [] (Some (OpError ''read tcp c:40000: connection timed out''))] = []"
  by (simp add: proxyBytes_def readFailed_def HasSuffix_def taken_def)

subsection \<open>The write loop and its error\<close>

text \<open>
  In general, without a logger: when the write of the bytes just read reports a
  non-temporary network error, the direction sends \<open>dst\<close> on \<open>done\<close> and then runs
  the read loop on the remaining reads.
\<close>

lemma proxyLoop_after_write_error:
  assumes "take (length (buf st)) d \<noteq> []"
  shows "proxyLoop src dst cstr None st None ((d, None) # rs)
       ((n, Some (NetError False txt)) # ws) =
    (let got = take (length (buf st)) d;
         b = got @ drop (length got) (buf st);
         st' = \<lparr>buf = b, nread = nread st + int (length got), nwritten = nwritten st + int n\<rparr>
     in (PRead src got None
           # [PWrite dst got n, PLog (''Error writing to '' @ cstr @ '': '' @ txt), PDone dst]
           @ fst (proxyLoop src dst cstr None st' None rs ws),
         snd (proxyLoop src dst cstr None st' None rs ws)))"
  using assms by (simp add: Let_def split_beta min_def sendPacket_def taken_def)

text \<open>
  C4. After a write that reports a non-temporary network error the direction sends
  \<open>dst\<close> on \<open>done\<close>, leaves the write loop and reads from the source again: here the
  one byte read cannot be written, \<open>T\<close> is sent on \<open>done\<close>, and a second \<open>Read\<close> on
  \<open>R\<close> follows (it finds the connection closed).
\<close>

theorem proxyBytes_reads_after_write_error:
  "proxyBytes R T 4 ''c'' None
     [(''x'', None), ([], Some (OpError ''read tcp: use of closed network connection''))]
     [(0, Some (NetError False ''write tcp: broken pipe''))]
   = ([PRead R ''x'' None, PWrite T ''x'' 0,
       PLog ''Error writing to c: write tcp: broken pipe'', PDone T,
       PRead R [] (Some (OpError ''read tcp: use of closed network connection'')),
       PLog ''Connection closed (1 read / 0 written): c''],
      Stopped (OpError ''read tcp: use of closed network connection''))"
  by (simp add: Let_def proxyBytes_def readFailed_def HasSuffix_def urws_def showInt_def
        showNat.simps digitChar_def sendPacket_def taken_def)

subsection \<open>Closing the sockets\<close>

text \<open>
  A handler that returns has closed \<open>R\<close> once, and \<open>T\<close> once when it had dialled it;
  a handler that waits (in the banner loop or in \<open><-done\<close>) has closed nothing.
\<close>

lemma closes_append: "closes (xs @ ys) = closes xs @ closes ys"
  by (induction xs rule: closes.induct) simp_all

lemma closes_sendBanner: "closes (fst (sendBanner banner s ws)) = []"
  by (induction banner s ws rule: sendBanner.induct) (auto split: option.splits prod.splits)

lemma closes_connectBack:
  "closes (fst (connectBack L r buflen logdir env constr rad ta)) =
     (case snd (connectBack L r buflen logdir env constr rad ta) of
        HBlocked \<Rightarrow> []
      | HReturned \<Rightarrow> (case dial env ta of Inl err \<Rightarrow> [R] | Inr t \<Rightarrow> [T, R]))"
  by (auto simp: connectBack_def Let_def closes_append split: sum.splits option.splits)

lemma handleConn_closes:
  "(snd (handleConn L r buflen banner logdir env) = HBlocked
      \<longrightarrow> closes (fst (handleConn L r buflen banner logdir env)) = [])
   \<and> (snd (handleConn L r buflen banner logdir env) = HReturned
      \<longrightarrow> closes (fst (handleConn L r buflen banner logdir env)) = [R]
        \<or> closes (fst (handleConn L r buflen banner logdir env)) = [T, R])"
proof (cases "banner = []")
  case True
  then show ?thesis
    by (auto simp: handleConn_def Let_def split_beta closes_append closes_connectBack
          split: addr.splits h_outcome.splits sum.splits)
next
  case False
  obtain bev bst where B: "sendBanner banner 0 (bannerWrites env) = (bev, bst)"
    by (cases "sendBanner banner 0 (bannerWrites env)") auto
  have bev: "closes bev = []"
    using B closes_sendBanner[of banner 0 "bannerWrites env"] by simp
  show ?thesis
    using False
    by (cases bst)
      (auto simp: handleConn_def Let_def B split_beta closes_append bev closes_connectBack
         split: addr.splits h_outcome.splits sum.splits)
qed

text \<open>
  C5. The direction from \<open>R\<close> stops on a reset of the inbound connection and sends
  nothing on \<open>done\<close>; the other direction waits in its \<open>Read\<close>. The handler stays in
  \<open><-done\<close> and closes neither socket.
\<close>

theorem handleConn_blocked_after_reset:
  "handleConn
      \<lparr>fmtAddr = (\<lambda>a. case a of TCP t \<Rightarrow> IP t | NotTCP x \<Rightarrow> x), ipString = (\<lambda>b. b),
        pathJoin = (\<lambda>d n. d @ ''/'' @ n)\<rparr>
      \<lparr>RemoteAddr = TCP \<lparr>IP = ''c'', Port = 40000, Zone = []\<rparr>,
        LocalAddr = TCP \<lparr>IP = ''m'', Port = 23, Zone = []\<rparr>\<rparr> 1024 [] None
      \<lparr>bannerWrites = [],
        dial = (\<lambda>ta. Inr \<lparr>RemoteAddr = TCP ta,
                            LocalAddr = TCP \<lparr>IP = ''m'', Port = 50000, Zone = []\<rparr>\<rparr>),
        diagWrite = (0, None), now = [],
        readsR = [([], Some (OpError ''read tcp c:40000: connection reset by peer''))],
        writesT = [], readsT = [], writesR = [], sendsIn = [], sendsOut = []\<rparr>
   = ([HLog ''Connection got: c -> m'',
       HDial \<lparr>IP = ''c'', Port = 23, Zone = []\<rparr>, HLog ''Connection made: m -> c'',
       HGoProxy R T ''c -> m'' False, HGoProxy T R ''m -> c'' False], HBlocked)
   \<and> snd (proxyBytes R T 1024 ''c -> m'' None
        [([], Some (OpError ''read tcp c:40000: connection reset by peer''))] [])
       = Stopped (OpError ''read tcp c:40000: connection reset by peer'')
   \<and> closes [HLog ''Connection got: c -> m'',
       HDial \<lparr>IP = ''c'', Port = 23, Zone = []\<rparr>, HLog ''Connection made: m -> c'',
       HGoProxy R T ''c -> m'' False, HGoProxy T R ''m -> c'' False] = []"
  by (simp add: Let_def handleConn_def connectBack_def doneArrives_def proxyBytes_def
        readFailed_def HasSuffix_def taken_def)

subsection \<open>The replay file\<close>

text \<open>
  C7. A packet of declared length \<open>L\<close> within its data, logged to an open file whose
  two writes succeed, appends exactly: a newline, the timestamp \<open>t.Format(StampNano)\<close>,
  a tab, the Unix seconds, a dot, the nanoseconds, a tab, the direction character (\<open>i\<close>
  for the packets of \<open>in\<close>, \<open>o\<close> for those of \<open>out\<close>), a tab, \<open>L\<close> in decimal, a
  tab, and the first \<open>L\<close> bytes of the data; nothing is logged beside it.
\<close>

theorem logPacket_record:
  assumes "\<not> fclosed f" and "0 \<le> plength p" and "plength p \<le> int (length (data p))"
  shows "logPacket (Some f) p d t WAll WAll =
     Logged (Some (f\<lparr>contents := contents f @ [NL] @ stampNano t @ [TAB] @ showInt (unix t)
        @ ''.'' @ showInt (nanosecond t) @ [TAB] @ [if d then CHR ''i'' else CHR ''o''] @ [TAB]
        @ showInt (plength p) @ [TAB] @ take (nat (plength p)) (data p)\<rparr>)) []"
  using assms by (simp add: logPacket_def metadata_def fileWrite_def Let_def)

theorem logPacket_record_witness:
  "logPacket (Some \<lparr>fname = ''f'', contents = [], fclosed = False\<rparr>)
      \<lparr>data = ''hello'', plength = 3\<rparr> True
      \<lparr>stampNano = ''Apr 28 10:00:00.000000005'', unix = 1398679200, nanosecond = 5\<rparr> WAll WAll
   = Logged (Some \<lparr>fname = ''f'',
        contents = [NL] @ ''Apr 28 10:00:00.000000005'' @ [TAB] @ ''1398679200.5'' @ [TAB] @ ''i''
           @ [TAB] @ ''3'' @ [TAB] @ ''hel'',
        fclosed = False\<rparr>) []"
proof -
  have h: "\<not> fclosed \<lparr>fname = ''f'', contents = [], fclosed = False\<rparr>"
    "0 \<le> plength \<lparr>data = ''hello'', plength = 3\<rparr>"
    "plength \<lparr>data = ''hello'', plength = 3\<rparr> \<le> int (length (data \<lparr>data = ''hello'', plength = 3\<rparr>))"
    by simp_all
  show ?thesis
    using logPacket_record[OF h, of True
      "\<lparr>stampNano = ''Apr 28 10:00:00.000000005'', unix = 1398679200, nanosecond = 5\<rparr>"]
    by (simp add: showInt_def showNat.simps digitChar_def)
qed

subsection \<open>The logger's loop\<close>

lemma logLoop_exit:
  "logLoop f ic oc steps = LExited f' \<Longrightarrow>
   (ic \<or> ChanClosed True \<in> set steps) \<and> (oc \<or> ChanClosed False \<in> set steps)"
  by (induction f ic oc steps rule: logLoop.induct) (auto split: if_splits lp_result.splits)

lemma logLoop_waiting:
  "logLoop f ic oc steps = LWaiting f' ic' oc' \<Longrightarrow>
   \<not> (ic' \<and> oc') \<and> (ic' \<longleftrightarrow> ic \<or> ChanClosed True \<in> set steps)
   \<and> (oc' \<longleftrightarrow> oc \<or> ChanClosed False \<in> set steps)
   \<and> logLoop f ic oc (steps @ rest) = logLoop f' ic' oc' rest"
  by (induction f ic oc steps rule: logLoop.induct) (auto split: if_splits lp_result.splits)

lemma logLoop_nil_file:
  "logLoop None ic oc steps = LExited None \<or> (\<exists>ic' oc'. logLoop None ic oc steps = LWaiting None ic' oc')"
  by (induction "None :: ofile option" ic oc steps rule: logLoop.induct) (auto simp: logPacket_def)

text \<open>
  C8. The logger leaves its loop only after it has received the end of both channels,
  and the file it leaves is closed. While it has not seen both ends it waits in the
  \<open>select\<close>, its flags telling which ends it has seen, and the next packet from either
  channel is handed to \<open>logPacket\<close>, after which it waits again.
\<close>

theorem logSession_stops_when_both_closed:
  "(logSession L fs dir prefix steps = LExited f \<longrightarrow>
      ChanClosed True \<in> set steps \<and> ChanClosed False \<in> set steps
      \<and> (\<forall>fl. f = Some fl \<longrightarrow> fclosed fl))
   \<and> (logSession L fs dir prefix steps = LWaiting f ic oc \<longrightarrow>
      \<not> (ic \<and> oc) \<and> (ic \<longleftrightarrow> ChanClosed True \<in> set steps)
      \<and> (oc \<longleftrightarrow> ChanClosed False \<in> set steps)
      \<and> logSession L fs dir prefix (steps @ [Got d p t w1 w2]) =
          (case logPacket f p d t w1 w2 of
             Logged f' msgs \<Rightarrow> LWaiting f' ic oc
           | LPanic f' \<Rightarrow> LPanicked f'))"
proof (cases "openLogFile L fs dir (prefix @ ''.owm'')")
  case (OFatal msg)
  then show ?thesis by (simp add: logSession_def)
next
  case (Opened olog msgs)
  show ?thesis
  proof (intro conjI impI)
    assume E: "logSession L fs dir prefix steps = LExited f"
    then obtain f0 where X: "logLoop olog False False steps = LExited f0"
      and f: "f = map_option fileClose f0"
      using Opened by (auto simp: logSession_def split: l_result.splits)
    from logLoop_exit[OF X] show "ChanClosed True \<in> set steps" "ChanClosed False \<in> set steps"
      by simp_all
    show "\<forall>fl. f = Some fl \<longrightarrow> fclosed fl"
      using f by (auto simp: fileClose_def)
  next
    assume W: "logSession L fs dir prefix steps = LWaiting f ic oc"
    then have X: "logLoop olog False False steps = LWaiting f ic oc"
      using Opened by (auto simp: logSession_def split: l_result.splits)
    note F = logLoop_waiting[OF X, of "[Got d p t w1 w2]"]
    from F show "\<not> (ic \<and> oc)" by blast
    from F show "ic \<longleftrightarrow> ChanClosed True \<in> set steps" by simp
    from F show "oc \<longleftrightarrow> ChanClosed False \<in> set steps" by simp
    from F have "logLoop olog False False (steps @ [Got d p t w1 w2])
        = logLoop f ic oc [Got d p t w1 w2]" and n: "\<not> (ic \<and> oc)" by blast+
    then show "logSession L fs dir prefix (steps @ [Got d p t w1 w2]) =
          (case logPacket f p d t w1 w2 of
             Logged f' msgs \<Rightarrow> LWaiting f' ic oc
           | LPanic f' \<Rightarrow> LPanicked f')"
      using Opened n by (auto simp: logSession_def split: lp_result.splits)
  qed
qed

theorem logSession_stops_when_both_closed_witness:
  "logSession \<lparr>fmtAddr = (\<lambda>a. []), ipString = (\<lambda>b. b), pathJoin = (\<lambda>d n. d @ ''/'' @ n)\<rparr>
       \<lparr>existing = {}, mkdirErr = (\<lambda>d. None), openErr = (\<lambda>p. None)\<rparr> ''d'' ''p''
       [ChanClosed True, ChanClosed False]
     = LExited (Some \<lparr>fname = ''d/p.owm'', contents = [], fclosed = True\<rparr>)
   \<and> ChanClosed True \<in> set [ChanClosed True, ChanClosed False]
   \<and> ChanClosed False \<in> set [ChanClosed True, ChanClosed False]
   \<and> fclosed \<lparr>fname = ''d/p.owm'', contents = [], fclosed = True\<rparr>
   \<and> logSession \<lparr>fmtAddr = (\<lambda>a. []), ipString = (\<lambda>b. b), pathJoin = (\<lambda>d n. d @ ''/'' @ n)\<rparr>
       \<lparr>existing = {}, mkdirErr = (\<lambda>d. None), openErr = (\<lambda>p. None)\<rparr> ''d'' ''p''
       [ChanClosed True]
     = LWaiting (Some \<lparr>fname = ''d/p.owm'', contents = [], fclosed = False\<rparr>) True False
   \<and> logSession \<lparr>fmtAddr = (\<lambda>a. []), ipString = (\<lambda>b. b), pathJoin = (\<lambda>d n. d @ ''/'' @ n)\<rparr>
       \<lparr>existing = {}, mkdirErr = (\<lambda>d. None), openErr = (\<lambda>p. None)\<rparr> ''d'' ''p''
       ([ChanClosed True] @ [Got False \<lparr>data = ''ab'', plength = 2\<rparr>
           \<lparr>stampNano = ''s'', unix = 7, nanosecond = 5\<rparr> WAll WAll])
     = LWaiting (Some \<lparr>fname = ''d/p.owm'',
          contents = [NL] @ ''s'' @ [TAB] @ ''7.5'' @ [TAB] @ ''o'' @ [TAB] @ ''2'' @ [TAB] @ ''ab'',
          fclosed = False\<rparr>) True False"
proof -
  let ?L = "\<lparr>fmtAddr = (\<lambda>a. []), ipString = (\<lambda>b. b), pathJoin = (\<lambda>d n. d @ ''/'' @ n)\<rparr>"
  let ?fs = "\<lparr>existing = {}, mkdirErr = (\<lambda>d. None), openErr = (\<lambda>p. None)\<rparr>"
  have e: "logSession ?L ?fs ''d'' ''p'' [ChanClosed True, ChanClosed False]
     = LExited (Some \<lparr>fname = ''d/p.owm'', contents = [], fclosed = True\<rparr>)"
    by (simp add: logSession_def openLogFile_def OpenFile_excl_def fileClose_def)
  have w: "logSession ?L ?fs ''d'' ''p'' [ChanClosed True]
     = LWaiting (Some \<lparr>fname = ''d/p.owm'', contents = [], fclosed = False\<rparr>) True False"
    by (simp add: logSession_def openLogFile_def OpenFile_excl_def)
  have lp: "logPacket (Some \<lparr>fname = ''d/p.owm'', contents = [], fclosed = False\<rparr>)
       \<lparr>data = ''ab'', plength = 2\<rparr> False \<lparr>stampNano = ''s'', unix = 7, nanosecond = 5\<rparr> WAll WAll
     = Logged (Some \<lparr>fname = ''d/p.owm'',
          contents = [NL] @ ''s'' @ [TAB] @ ''7.5'' @ [TAB] @ ''o'' @ [TAB] @ ''2'' @ [TAB] @ ''ab'',
          fclosed = False\<rparr>) []"
    by (simp add: logPacket_def metadata_def fileWrite_def Let_def showInt_def showNat.simps
          digitChar_def)
  show ?thesis
    using logSession_stops_when_both_closed[where L = ?L and fs = ?fs and dir = "''d''"
        and prefix = "''p''" and steps = "[ChanClosed True, ChanClosed False]"
        and f = "Some \<lparr>fname = ''d/p.owm'', contents = [], fclosed = True\<rparr>"]
      logSession_stops_when_both_closed[where L = ?L and fs = ?fs and dir = "''d''"
        and prefix = "''p''" and steps = "[ChanClosed True]"
        and f = "Some \<lparr>fname = ''d/p.owm'', contents = [], fclosed = False\<rparr>"
        and ic = True and oc = False and d = False and p = "\<lparr>data = ''ab'', plength = 2\<rparr>"
        and t = "\<lparr>stampNano = ''s'', unix = 7, nanosecond = 5\<rparr>" and ?w1.0 = WAll
        and ?w2.0 = WAll]
    by (simp only: e w lp) simp
qed

subsection \<open>The replay file round trip\<close>

lemma digitVal_digitChar: "d < 10 \<Longrightarrow> digitVal (digitChar d) = Some d"
proof -
  assume "d < 10"
  then have "d = 0 \<or> d = 1 \<or> d = 2 \<or> d = 3 \<or> d = 4 \<or> d = 5 \<or> d = 6
      \<or> d = 7 \<or> d = 8 \<or> d = 9"
    by arith
  then show ?thesis
    by (elim disjE) (simp_all add: digitVal_def digitChar_def)
qed

lemma digitChar_not_TAB: "d < 10 \<Longrightarrow> digitChar d \<noteq> TAB"
proof -
  assume "d < 10"
  then have "d = 0 \<or> d = 1 \<or> d = 2 \<or> d = 3 \<or> d = 4 \<or> d = 5 \<or> d = 6
      \<or> d = 7 \<or> d = 8 \<or> d = 9"
    by arith
  then show ?thesis
    by (elim disjE) (simp_all add: digitChar_def)
qed

lemma parseDigits_snoc:
  "parseDigits acc (s @ [c]) =
     (case parseDigits acc s of
        None \<Rightarrow> None
      | Some a \<Rightarrow> (case digitVal c of None \<Rightarrow> None | Some v \<Rightarrow> Some (10 * a + v)))"
  by (induction s arbitrary: acc) (auto split: option.splits)

lemma parseDigits_showNat: "parseDigits 0 (showNat n) = Some n"
proof (induction n rule: showNat.induct)
  case (1 n)
  show ?case
  proof (cases "n < 10")
    case True
    then show ?thesis
      by (subst showNat.simps) (simp add: digitVal_digitChar)
  next
    case False
    then have "parseDigits 0 (showNat (n div 10)) = Some (n div 10)"
      using 1 by simp
    then show ?thesis
      using False
      by (subst showNat.simps) (simp add: parseDigits_snoc digitVal_digitChar)
  qed
qed

lemma showNat_nonempty: "showNat n \<noteq> []"
  by (subst showNat.simps) simp

lemma parseNat_showNat: "parseNat (showNat n) = Some n"
  by (simp add: parseNat_def showNat_nonempty parseDigits_showNat)

lemma showNat_no_TAB: "TAB \<notin> set (showNat n)"
proof (induction n rule: showNat.induct)
  case (1 n)
  show ?case
  proof (cases "n < 10")
    case True
    then show ?thesis
      using digitChar_not_TAB[of n] by (subst showNat.simps) auto
  next
    case False
    then show ?thesis
      using 1 digitChar_not_TAB[of "n mod 10"] by (subst showNat.simps) auto
  qed
qed

lemma showInt_no_TAB: "TAB \<notin> set (showInt i)"
  by (simp add: showInt_def showNat_no_TAB)

lemma splitTab_append: "TAB \<notin> set s \<Longrightarrow> splitTab (s @ TAB # r) = Some (s, r)"
  by (induction s) auto

lemma splitTab_secs:
  "splitTab (showInt a @ CHR ''.'' # showInt b @ TAB # r) = Some (showInt a @ CHR ''.'' # showInt b, r)"
  using splitTab_append[of "showInt a @ CHR ''.'' # showInt b" r]
  by (simp add: showInt_no_TAB)

lemma replayRecords_record:
  assumes "TAB \<notin> set (stampNano t)" and "wfPacket p"
  shows "replayRecords (metadata p d t @ payload p @ rest) =
     map_option ((#) (if d then CHR ''i'' else CHR ''o'', payload p)) (replayRecords rest)"
proof -
  let ?dc = "if d then CHR ''i'' else CHR ''o''"
  let ?secs = "showInt (unix t) @ CHR ''.'' # showInt (nanosecond t)"
  have L: "showInt (plength p) = showNat (nat (plength p))"
    using assms(2) by (simp add: showInt_def wfPacket_def)
  have secs: "TAB \<notin> set ?secs"
    by (simp add: showInt_no_TAB)
  have n: "length (payload p) = nat (plength p)"
    using assms(2) by (simp add: payload_def wfPacket_def min_absorb2 nat_le_iff)
  have m: "metadata p d t @ payload p @ rest =
      NL # (stampNano t @ TAB # (?secs @ TAB # (?dc # TAB
         # (showNat (nat (plength p)) @ TAB # (payload p @ rest)))))"
    by (simp add: metadata_def L)
  show ?thesis
    unfolding m
    by (simp add: splitTab_append[OF assms(1)] splitTab_secs
          splitTab_append[OF showNat_no_TAB] parseNat_showNat n del: showNat.simps)
qed

lemma replayRecords_recordsOf:
  "stampsPlain steps \<Longrightarrow> wfSteps steps \<Longrightarrow> replayRecords (recordsOf steps) = Some (taggedOf steps)"
proof (induction steps rule: recordsOf.induct)
  case 1
  then show ?case by simp
next
  case (2 d p t w1 w2 steps)
  then show ?case
    using replayRecords_record[of t p d "recordsOf steps"] by simp
next
  case (3 d steps)
  then show ?case by simp
qed

lemma taggedOf_payloads:
  "concat (map snd (filter (\<lambda>r. fst r = (if d then CHR ''i'' else CHR ''o'')) (taggedOf steps)))
    = concat (map payload (gotPackets d steps))"
  by (induction steps rule: taggedOf.induct) auto

lemma recordsOf_closed: "chanOrder True True steps \<Longrightarrow> recordsOf steps = []"
  by (induction steps rule: recordsOf.induct) (auto split: if_splits)

lemma logLoop_contents:
  assumes "chanOrder ic oc steps" and "allWritten steps" and "wfSteps steps" and "\<not> fclosed f"
  shows "\<exists>f'. resultFile (logLoop (Some f) ic oc steps) = Some f'
     \<and> contents f' = contents f @ recordsOf steps \<and> \<not> fclosed f'"
  using assms
proof (induction steps arbitrary: ic oc f)
  case Nil
  then show ?case by simp
next
  case (Cons x steps)
  show ?case
  proof (cases x)
    case (Got d p t w1 w2)
    then have ch: "\<not> (ic \<and> oc)" "chanOrder ic oc steps" and w: "w1 = WAll" "w2 = WAll"
      and rest: "allWritten steps" "wfSteps steps" and wf: "wfPacket p"
      using Cons.prems by (auto split: if_splits)
    let ?f = "f\<lparr>contents := contents f @ metadata p d t @ payload p\<rparr>"
    have lp: "logPacket (Some f) p d t w1 w2 = Logged (Some ?f) []"
      using wf Cons.prems(4) w
      by (simp add: logPacket_def fileWrite_def Let_def wfPacket_def payload_def)
    have "\<not> fclosed ?f" using Cons.prems(4) by simp
    from Cons.IH[OF ch(2) rest this]
    show ?thesis using ch(1) lp Got by auto
  next
    case (ChanClosed d)
    show ?thesis
    proof (cases "ic \<and> oc")
      case True
      then have "recordsOf (x # steps) = []"
        using Cons.prems(1) recordsOf_closed[of "x # steps"] by simp
      then show ?thesis using True ChanClosed Cons.prems(4) by simp
    next
      case False
      have "chanOrder (ic \<or> d) (oc \<or> \<not> d) steps" "allWritten steps" "wfSteps steps"
        using Cons.prems ChanClosed by simp_all
      from Cons.IH[OF this Cons.prems(4)]
      show ?thesis using False ChanClosed by (cases d) auto
    qed
  qed
qed

lemma takenPackets_append: "takenPackets (xs @ ys) = takenPackets xs @ takenPackets ys"
  by (induction xs rule: takenPackets.induct) simp_all

lemma readOK_append: "readOK (xs @ ys) = readOK xs @ readOK ys"
  by (induction xs rule: readOK.induct) simp_all

lemma writeLoop_no_packet_read:
  "takenPackets (fst (writeLoop dst cstr b start fin nw ws)) = []
   \<and> readOK (fst (writeLoop dst cstr b start fin nw ws)) = []"
  by (induction dst cstr b start fin nw ws rule: writeLoop.induct)
     (auto split: option.splits werror.splits bool.splits prod.splits)

lemma readFailed_no_packet_read:
  "takenPackets (readFailed src cstr rws e) = [] \<and> readOK (readFailed src cstr rws e) = []"
  by (cases e) (simp_all add: readFailed_def)

text \<open>
  When the logger takes every payload before the direction's next \<open>Read\<close>, no send
  meets a closed channel and the direction is not left waiting in a send: the payloads
  the logger takes are the bytes the reads returned without an error.
\<close>

lemma proxyLoop_prompt:
  assumes "\<forall>x \<in> set ss. x = Received False"
    and "snd (proxyLoop src dst cstr (Some ss) st None rs ws) \<noteq> BlockedSend"
  shows "concat (map payload (takenPackets (fst (proxyLoop src dst cstr (Some ss) st None rs ws))))
     = readOK (fst (proxyLoop src dst cstr (Some ss) st None rs ws))
   \<and> (\<forall>p \<in> set (takenPackets (fst (proxyLoop src dst cstr (Some ss) st None rs ws))). wfPacket p)"
  using assms
proof (induction rs arbitrary: st ws ss)
  case Nil
  then show ?case by (simp add: taken_def)
next
  case (Cons r rs)
  obtain d err where r: "r = (d, err)" by (cases r)
  define got where "got = take (length (buf st)) d"
  define b where "b = got @ drop (length got) (buf st)"
  have pl: "payload \<lparr>data = b, plength = int (length got)\<rparr> = got"
    and wf: "wfPacket \<lparr>data = b, plength = int (length got)\<rparr>"
    by (simp_all add: payload_def b_def wfPacket_def)
  show ?case
  proof (cases err)
    case (Some e)
    then show ?thesis
      by (simp add: r Let_def readFailed_no_packet_read taken_def takenPackets_append
            readOK_append)
  next
    case None
    obtain ss' where ss: "ss = Received False # ss'"
      using Cons.prems
      by (cases ss) (auto simp: r None Let_def sendPacket_def taken_def)
    have sp: "sendPacket (Some ss) b (length got)
        = Sent [PPacket b (length got), PTaken b (length got)] None (Some ss')"
      by (simp add: sendPacket_def ss)
    obtain wev nw ws' wst where W:
      "writeLoop dst cstr b 0 (length got) (nwritten st) ws = (wev, nw, ws', wst)"
      by (cases "writeLoop dst cstr b 0 (length got) (nwritten st) ws") auto
    have wev: "takenPackets wev = []" "readOK wev = []"
      using writeLoop_no_packet_read[of dst cstr b 0 "length got" "nwritten st" ws] W by simp_all
    show ?thesis
    proof (cases "wst = WPending")
      case True
      then show ?thesis
        using W wev pl wf sp
        by (simp add: r None Let_def got_def[symmetric] b_def[symmetric] taken_def
              takenPackets_append readOK_append)
    next
      case False
      let ?st = "\<lparr>buf = b, nread = nread st + int (length got), nwritten = nw\<rparr>"
      obtain evs s where P: "proxyLoop src dst cstr (Some ss') ?st None rs ws' = (evs, s)"
        by (cases "proxyLoop src dst cstr (Some ss') ?st None rs ws'") auto
      have s: "s \<noteq> BlockedSend"
        using Cons.prems(2) W False sp P
        by (simp add: r None Let_def got_def[symmetric] b_def[symmetric])
      have "\<forall>x \<in> set ss'. x = Received False"
        using Cons.prems(1) ss by simp
      from Cons.IH[OF this, of ?st ws'] P s
      have IH: "concat (map payload (takenPackets evs)) = readOK evs"
        "\<forall>p \<in> set (takenPackets evs). wfPacket p"
        by simp_all
      show ?thesis
        using W wev pl wf False P IH sp
        by (simp add: r None Let_def got_def[symmetric] b_def[symmetric] taken_def
              takenPackets_append readOK_append)
    qed
  qed
qed

lemma wfSteps_gotPackets:
  "wfSteps steps \<longleftrightarrow> (\<forall>p \<in> set (gotPackets True steps) \<union> set (gotPackets False steps). wfPacket p)"
  by (induction steps rule: wfSteps.induct) auto

lemma proxyBytes_prompt:
  assumes "\<forall>x \<in> set ss. x = Received False"
    and "snd (proxyBytes src dst buflen cstr (Some ss) rs ws) \<noteq> BlockedSend"
  shows "concat (map payload (takenPackets (fst (proxyBytes src dst buflen cstr (Some ss) rs ws))))
     = readOK (fst (proxyBytes src dst buflen cstr (Some ss) rs ws))
   \<and> (\<forall>p \<in> set (takenPackets (fst (proxyBytes src dst buflen cstr (Some ss) rs ws))). wfPacket p)"
proof (cases "buflen < 0")
  case True
  then show ?thesis by (simp add: proxyBytes_def)
next
  case False
  then show ?thesis
    using assms proxyLoop_prompt[OF assms(1), of src dst cstr
      "\<lparr>buf = replicate (nat buflen) (CHR 0x00), nread = 0, nwritten = 0\<rparr>" rs ws]
    by (simp add: proxyBytes_def)
qed

text \<open>
  The round trip, as far as it holds: in a session whose replay file is opened and
  whose writes to the file all succeed, whose logger takes every payload before the
  direction's next \<open>Read\<close>, and in which no send meets a closed channel or is left
  waiting, the payloads of the \<open>i\<close> records of the file, in file order, are the bytes
  the reads of the inbound connection returned without an error, and those of the \<open>o\<close>
  records the bytes of the connect-back connection.
\<close>

lemma replay_roundtrip_prompt:
  assumes "mkdirErr fs dir = None"
    and "pathJoin L dir (prefix @ ''.owm'') \<notin> existing fs"
    and "openErr fs (pathJoin L dir (prefix @ ''.owm'')) = None"
    and "allWritten steps" and "stampsPlain steps" and "chanOrder False False steps"
    and "\<forall>x \<in> set ss1. x = Received False" and "\<forall>x \<in> set ss2. x = Received False"
    and "snd (proxyBytes R T buflen cstr1 (Some ss1) rs1 ws1) \<noteq> BlockedSend"
    and "snd (proxyBytes T R buflen cstr2 (Some ss2) rs2 ws2) \<noteq> BlockedSend"
    and "gotPackets True steps
          = takenPackets (fst (proxyBytes R T buflen cstr1 (Some ss1) rs1 ws1))"
    and "gotPackets False steps
          = takenPackets (fst (proxyBytes T R buflen cstr2 (Some ss2) rs2 ws2))"
  shows "\<exists>f. resultFile (logSession L fs dir prefix steps) = Some f
     \<and> replayPayloads (CHR ''i'') (contents f)
         = Some (readOK (fst (proxyBytes R T buflen cstr1 (Some ss1) rs1 ws1)))
     \<and> replayPayloads (CHR ''o'') (contents f)
         = Some (readOK (fst (proxyBytes T R buflen cstr2 (Some ss2) rs2 ws2)))"
proof -
  let ?f0 = "\<lparr>fname = pathJoin L dir (prefix @ ''.owm''), contents = [], fclosed = False\<rparr>"
  note I = proxyBytes_prompt[OF assms(7) assms(9)]
  note O = proxyBytes_prompt[OF assms(8) assms(10)]
  have Op: "openLogFile L fs dir (prefix @ ''.owm'') = Opened (Some ?f0) []"
    using assms(1-3) by (simp add: openLogFile_def OpenFile_excl_def)
  have wf: "wfSteps steps"
    unfolding wfSteps_gotPackets assms(11,12)
    using I O by auto
  obtain f' where F: "resultFile (logLoop (Some ?f0) False False steps) = Some f'"
    and C: "contents f' = recordsOf steps"
    using logLoop_contents[OF assms(6) assms(4) wf, of ?f0] by auto
  have "resultFile (logSession L fs dir prefix steps) = Some f'
      \<or> resultFile (logSession L fs dir prefix steps) = Some (fileClose f')"
    using F Op by (cases "logLoop (Some ?f0) False False steps") (auto simp: logSession_def)
  then obtain f where f: "resultFile (logSession L fs dir prefix steps) = Some f"
    and cf: "contents f = recordsOf steps"
    using C by (auto simp: fileClose_def)
  have P: "replayPayloads (if d then CHR ''i'' else CHR ''o'') (contents f)
      = Some (concat (map payload (gotPackets d steps)))" for d
    unfolding replayPayloads_def cf replayRecords_recordsOf[OF assms(5) wf]
    using taggedOf_payloads[of d steps] by simp
  have "replayPayloads (CHR ''i'') (contents f)
         = Some (readOK (fst (proxyBytes R T buflen cstr1 (Some ss1) rs1 ws1)))"
    using P[of True] I assms(11) by simp
  moreover have "replayPayloads (CHR ''o'') (contents f)
         = Some (readOK (fst (proxyBytes T R buflen cstr2 (Some ss2) rs2 ws2)))"
    using P[of False] O assms(12) by simp
  ultimately show ?thesis using f by blast
qed

text \<open>
  C6. A logged session in which every write to the replay file succeeds. The inbound
  direction reads \<open>hi\<close>, hands its packet to the logger, writes the bytes on and reads
  \<open>yo\<close> into the same buffer before the logger has written the first payload; the
  logger then takes \<open>yo\<close> for the first packet and \<open>yo\<close> for the second. The \<open>i\<close>
  records of the file read \<open>yoyo\<close>, the bytes read from the inbound connection are
  \<open>hiyo\<close>. And a direction that sends a packet after \<open>handleConn\<close> has closed the
  channels panics, with the bytes it has just read in no record.
\<close>

theorem replay_payload_overwritten:
  "proxyBytes R T 2 ''c'' (Some [Received True, Received False])
       [(''hi'', None), (''yo'', None)] [(2, None), (2, None)]
     = ([PRead R ''hi'' None, PPacket ''hi'' 2, PWrite T ''hi'' 2,
         PRead R ''yo'' None, PTaken ''yo'' 2, PPacket ''yo'' 2, PTaken ''yo'' 2,
         PWrite T ''yo'' 2], BlockedRead)
   \<and> readOK (fst (proxyBytes R T 2 ''c'' (Some [Received True, Received False])
       [(''hi'', None), (''yo'', None)] [(2, None), (2, None)])) = ''hiyo''
   \<and> gotPackets True
        [Got True \<lparr>data = ''yo'', plength = 2\<rparr> \<lparr>stampNano = ''s'', unix = 7, nanosecond = 5\<rparr>
           WAll WAll,
         Got True \<lparr>data = ''yo'', plength = 2\<rparr> \<lparr>stampNano = ''s'', unix = 7, nanosecond = 6\<rparr>
           WAll WAll]
     = takenPackets (fst (proxyBytes R T 2 ''c'' (Some [Received True, Received False])
       [(''hi'', None), (''yo'', None)] [(2, None), (2, None)]))
   \<and> resultFile (logSession
        \<lparr>fmtAddr = (\<lambda>a. []), ipString = (\<lambda>b. b), pathJoin = (\<lambda>d n. d @ ''/'' @ n)\<rparr>
        \<lparr>existing = {}, mkdirErr = (\<lambda>d. None), openErr = (\<lambda>p. None)\<rparr> ''d'' ''p''
        [Got True \<lparr>data = ''yo'', plength = 2\<rparr> \<lparr>stampNano = ''s'', unix = 7, nanosecond = 5\<rparr>
           WAll WAll,
         Got True \<lparr>data = ''yo'', plength = 2\<rparr> \<lparr>stampNano = ''s'', unix = 7, nanosecond = 6\<rparr>
           WAll WAll])
     = Some \<lparr>fname = ''d/p.owm'',
         contents = [NL] @ ''s'' @ [TAB] @ ''7.5'' @ [TAB] @ ''i'' @ [TAB] @ ''2'' @ [TAB] @ ''yo''
           @ [NL] @ ''s'' @ [TAB] @ ''7.6'' @ [TAB] @ ''i'' @ [TAB] @ ''2'' @ [TAB] @ ''yo'',
         fclosed = False\<rparr>
   \<and> replayPayloads (CHR ''i'')
        ([NL] @ ''s'' @ [TAB] @ ''7.5'' @ [TAB] @ ''i'' @ [TAB] @ ''2'' @ [TAB] @ ''yo''
           @ [NL] @ ''s'' @ [TAB] @ ''7.6'' @ [TAB] @ ''i'' @ [TAB] @ ''2'' @ [TAB] @ ''yo'')
     = Some ''yoyo''
   \<and> proxyBytes T R 2 ''t'' (Some [SinkClosed]) [(''ok'', None)] []
     = ([PRead T ''ok'' None], Panicked)"
proof -
  have tr: "proxyBytes R T 2 ''c'' (Some [Received True, Received False])
       [(''hi'', None), (''yo'', None)] [(2, None), (2, None)]
     = ([PRead R ''hi'' None, PPacket ''hi'' 2, PWrite T ''hi'' 2,
         PRead R ''yo'' None, PTaken ''yo'' 2, PPacket ''yo'' 2, PTaken ''yo'' 2,
         PWrite T ''yo'' 2], BlockedRead)"
    by (simp add: proxyBytes_def Let_def sendPacket_def taken_def numeral_2_eq_2)
  have lg: "resultFile (logSession
        \<lparr>fmtAddr = (\<lambda>a. []), ipString = (\<lambda>b. b), pathJoin = (\<lambda>d n. d @ ''/'' @ n)\<rparr>
        \<lparr>existing = {}, mkdirErr = (\<lambda>d. None), openErr = (\<lambda>p. None)\<rparr> ''d'' ''p''
        [Got True \<lparr>data = ''yo'', plength = 2\<rparr> \<lparr>stampNano = ''s'', unix = 7, nanosecond = 5\<rparr>
           WAll WAll,
         Got True \<lparr>data = ''yo'', plength = 2\<rparr> \<lparr>stampNano = ''s'', unix = 7, nanosecond = 6\<rparr>
           WAll WAll])
     = Some \<lparr>fname = ''d/p.owm'',
         contents = [NL] @ ''s'' @ [TAB] @ ''7.5'' @ [TAB] @ ''i'' @ [TAB] @ ''2'' @ [TAB] @ ''yo''
           @ [NL] @ ''s'' @ [TAB] @ ''7.6'' @ [TAB] @ ''i'' @ [TAB] @ ''2'' @ [TAB] @ ''yo'',
         fclosed = False\<rparr>"
    by (simp add: logSession_def openLogFile_def OpenFile_excl_def logPacket_def metadata_def
          fileWrite_def Let_def showInt_def showNat.simps digitChar_def)
  have rp: "replayPayloads (CHR ''i'')
        ([NL] @ ''s'' @ [TAB] @ ''7.5'' @ [TAB] @ ''i'' @ [TAB] @ ''2'' @ [TAB] @ ''yo''
           @ [NL] @ ''s'' @ [TAB] @ ''7.6'' @ [TAB] @ ''i'' @ [TAB] @ ''2'' @ [TAB] @ ''yo'')
     = Some ''yoyo''"
    by (simp add: replayPayloads_def parseNat_def digitVal_def)
  have pn: "proxyBytes T R 2 ''t'' (Some [SinkClosed]) [(''ok'', None)] []
     = ([PRead T ''ok'' None], Panicked)"
    by (simp add: proxyBytes_def Let_def sendPacket_def taken_def)
  show ?thesis
    unfolding tr using lg rp pn by (simp del: replayRecords.simps)
qed

subsection \<open>Opening the replay file\<close>

text \<open>
  C9. When \<open>os.MkdirAll\<close> fails, \<open>openLogFile\<close> ends the process and so does the
  logger. When the directory is there and the file exists, \<open>O_EXCL\<close> makes the open
  fail: \<open>openLogFile\<close> logs the failure and returns nil, \<open>logPacket\<close> on nil returns
  at once without a log line, and the logger neither panics nor ends the process: it
  waits or leaves its loop, with no file. When the file does not exist and the open
  succeeds, the logger has a new, empty file.
\<close>

theorem openLogFile_outcomes:
  "(mkdirErr fs dir = Some err \<longrightarrow>
      openLogFile L fs dir (prefix @ ''.owm'')
        = OFatal (''Unable to create directory '' @ dir @ '': '' @ err)
      \<and> logSession L fs dir prefix steps
        = LFatal (''Unable to create directory '' @ dir @ '': '' @ err))
   \<and> (mkdirErr fs dir = None \<and> pathJoin L dir (prefix @ ''.owm'') \<in> existing fs \<longrightarrow>
      openLogFile L fs dir (prefix @ ''.owm'')
        = Opened None [''Unable to open '' @ prefix @ ''.owm'' @ '': file exists'']
      \<and> logPacket None p d t w1 w2 = Logged None []
      \<and> (logSession L fs dir prefix steps = LExited None
          \<or> (\<exists>ic oc. logSession L fs dir prefix steps = LWaiting None ic oc)))
   \<and> (mkdirErr fs dir = None \<and> pathJoin L dir (prefix @ ''.owm'') \<notin> existing fs
        \<and> openErr fs (pathJoin L dir (prefix @ ''.owm'')) = None \<longrightarrow>
      openLogFile L fs dir (prefix @ ''.owm'')
        = Opened (Some \<lparr>fname = pathJoin L dir (prefix @ ''.owm''), contents = [],
            fclosed = False\<rparr>) [])"
proof (intro conjI impI)
  assume "mkdirErr fs dir = None \<and> pathJoin L dir (prefix @ ''.owm'') \<in> existing fs"
  then have O: "openLogFile L fs dir (prefix @ ''.owm'')
        = Opened None [''Unable to open '' @ prefix @ ''.owm'' @ '': file exists'']"
    by (simp add: openLogFile_def OpenFile_excl_def)
  then show "openLogFile L fs dir (prefix @ ''.owm'')
        = Opened None [''Unable to open '' @ prefix @ ''.owm'' @ '': file exists'']" .
  show "logSession L fs dir prefix steps = LExited None
          \<or> (\<exists>ic oc. logSession L fs dir prefix steps = LWaiting None ic oc)"
    using logLoop_nil_file[of False False steps] O
    by (auto simp: logSession_def)
qed (simp_all add: openLogFile_def OpenFile_excl_def logSession_def logPacket_def)

theorem openLogFile_outcomes_witness:
  "logSession \<lparr>fmtAddr = (\<lambda>a. []), ipString = (\<lambda>b. b), pathJoin = (\<lambda>d n. d @ ''/'' @ n)\<rparr>
       \<lparr>existing = {}, mkdirErr = (\<lambda>d. Some ''permission denied''), openErr = (\<lambda>p. None)\<rparr>
       ''d'' ''p'' [ChanClosed True]
     = LFatal ''Unable to create directory d: permission denied''
   \<and> openLogFile \<lparr>fmtAddr = (\<lambda>a. []), ipString = (\<lambda>b. b), pathJoin = (\<lambda>d n. d @ ''/'' @ n)\<rparr>
       \<lparr>existing = {''d/p.owm''}, mkdirErr = (\<lambda>d. None), openErr = (\<lambda>p. None)\<rparr>
       ''d'' (''p'' @ ''.owm'')
     = Opened None [''Unable to open p.owm: file exists'']
   \<and> (logSession \<lparr>fmtAddr = (\<lambda>a. []), ipString = (\<lambda>b. b), pathJoin = (\<lambda>d n. d @ ''/'' @ n)\<rparr>
       \<lparr>existing = {''d/p.owm''}, mkdirErr = (\<lambda>d. None), openErr = (\<lambda>p. None)\<rparr>
       ''d'' ''p'' [Got True \<lparr>data = ''ab'', plength = 2\<rparr>
           \<lparr>stampNano = ''s'', unix = 7, nanosecond = 5\<rparr> WAll WAll]
     = LWaiting None False False)
   \<and> openLogFile \<lparr>fmtAddr = (\<lambda>a. []), ipString = (\<lambda>b. b), pathJoin = (\<lambda>d n. d @ ''/'' @ n)\<rparr>
       \<lparr>existing = {''d/q.owm''}, mkdirErr = (\<lambda>d. None), openErr = (\<lambda>p. None)\<rparr>
       ''d'' (''p'' @ ''.owm'')
     = Opened (Some \<lparr>fname = ''d/p.owm'', contents = [], fclosed = False\<rparr>) []"
proof -
  let ?L = "\<lparr>fmtAddr = (\<lambda>a. []), ipString = (\<lambda>b. b), pathJoin = (\<lambda>d n. d @ ''/'' @ n)\<rparr>"
  have w: "logSession ?L
       \<lparr>existing = {''d/p.owm''}, mkdirErr = (\<lambda>d. None), openErr = (\<lambda>p. None)\<rparr>
       ''d'' ''p'' [Got True \<lparr>data = ''ab'', plength = 2\<rparr>
           \<lparr>stampNano = ''s'', unix = 7, nanosecond = 5\<rparr> WAll WAll]
     = LWaiting None False False"
    by (simp add: logSession_def openLogFile_def OpenFile_excl_def logPacket_def)
  show ?thesis
    using openLogFile_outcomes[of
        "\<lparr>existing = {}, mkdirErr = (\<lambda>d. Some ''permission denied''), openErr = (\<lambda>p. None)\<rparr>"
        "''d''" "''permission denied''" ?L "''p''" "[ChanClosed True]"]
      openLogFile_outcomes[of
        "\<lparr>existing = {''d/p.owm''}, mkdirErr = (\<lambda>d. None), openErr = (\<lambda>p. None)\<rparr>"
        "''d''" _ ?L "''p''"]
      openLogFile_outcomes[of
        "\<lparr>existing = {''d/q.owm''}, mkdirErr = (\<lambda>d. None), openErr = (\<lambda>p. None)\<rparr>"
        "''d''" _ ?L "''p''"] w
    by simp
qed

subsection \<open>The dispatch loop\<close>

lemma step_closed_before_death:
  assumes "step\<^sup>*\<^sup>* s0 s"
    and "\<forall>k. lis s0 k = Dying \<or> lis s0 k = Gone \<longrightarrow> ch s0 k = ClosedChan"
  shows "\<forall>k. lis s k = Dying \<or> lis s k = Gone \<longrightarrow> ch s k = ClosedChan"
  using assms
proof (induction rule: rtranclp_induct)
  case base
  then show ?case by simp
next
  case (step y z)
  then have IH: "\<forall>k. lis y k = Dying \<or> lis y k = Gone \<longrightarrow> ch y k = ClosedChan" by simp
  from step.hyps(2) show ?case
    using IH by cases auto
qed

lemma startMain_none_dying:
  "startMain d4 d6 binds = Some s0 \<Longrightarrow> lis s0 k \<noteq> Dying \<and> lis s0 k \<noteq> Gone"
  by (auto simp: startMain_def split: if_splits)

text \<open>
  C10. In every execution, a listener that waits to signal its death, or has signalled
  it, has closed its channel before. And with both listeners started, there is an
  execution in which the accept of the IPv4 listener fails, \<open>waitConn\<close> closes its
  channel and waits to signal its death (\<open>waitDead\<close> has counted nothing yet), the IPv6
  listener is still accepting, and the \<open>select\<close> of \<open>main\<close> receives from the closed
  channel: \<open>handleConn\<close> is started on a nil connection.
\<close>

theorem nil_conn_dispatched:
  "(\<forall>d4 d6 binds s0 s k.
      startMain d4 d6 binds = Some s0 \<and> step\<^sup>*\<^sup>* s0 s \<and> (lis s k = Dying \<or> lis s k = Gone)
      \<longrightarrow> ch s k = ClosedChan)
   \<and> (\<exists>s0 s. startMain False False (\<lambda>k. True) = Some s0 \<and> step\<^sup>*\<^sup>* s0 s
        \<and> handled s = [None] \<and> lis s V4 = Dying \<and> ch s V4 = ClosedChan
        \<and> lis s V6 = Accepting \<and> ch s V6 = OpenChan \<and> ndead s = 0 \<and> \<not> fatal s)"
proof (intro conjI allI impI)
  fix d4 d6 binds s0 s k
  assume A: "startMain d4 d6 binds = Some s0 \<and> step\<^sup>*\<^sup>* s0 s \<and> (lis s k = Dying \<or> lis s k = Gone)"
  then have "\<forall>k. lis s0 k = Dying \<or> lis s0 k = Gone \<longrightarrow> ch s0 k = ClosedChan"
    using startMain_none_dying[of d4 d6 binds s0] by blast
  with A show "ch s k = ClosedChan"
    using step_closed_before_death[of s0 s] by blast
next
  define s0 where "s0 = \<lparr>lis = (\<lambda>k. if (case k of V4 \<Rightarrow> False | V6 \<Rightarrow> False)
                           then NotStarted else Accepting),
                 ch = (\<lambda>k. if (case k of V4 \<Rightarrow> False | V6 \<Rightarrow> False)
                           then NilChan else OpenChan),
                 nlis = (if False then 0 else 1) + (if False then 0 else 1),
                 ndead = 0, handled = [], fatal = False\<rparr>"
  define s1 where "s1 = s0\<lparr>lis := (lis s0)(V4 := Dying), ch := (ch s0)(V4 := ClosedChan)\<rparr>"
  define s2 where "s2 = s1\<lparr>handled := handled s1 @ [None]\<rparr>"
  have "startMain False False (\<lambda>k. True) = Some s0"
    by (simp add: startMain_def s0_def)
  moreover have "step s0 s1"
    unfolding s1_def by (rule step.accept_fail) (simp_all add: s0_def)
  moreover have "step s1 s2"
    unfolding s2_def by (rule step.recv_closed[where k = V4]) (simp_all add: s1_def s0_def)
  moreover have "handled s2 = [None]" "lis s2 V4 = Dying" "ch s2 V4 = ClosedChan"
    "lis s2 V6 = Accepting" "ch s2 V6 = OpenChan" "ndead s2 = 0" "\<not> fatal s2"
    by (simp_all add: s2_def s1_def s0_def)
  ultimately show "\<exists>s0 s. startMain False False (\<lambda>k. True) = Some s0 \<and> step\<^sup>*\<^sup>* s0 s
        \<and> handled s = [None] \<and> lis s V4 = Dying \<and> ch s V4 = ClosedChan
        \<and> lis s V6 = Accepting \<and> ch s V6 = OpenChan \<and> ndead s = 0 \<and> \<not> fatal s"
    by (meson rtranclp.rtrancl_into_rtrancl rtranclp.rtrancl_refl)
qed

theorem nil_conn_dispatched_witness:
  "\<exists>s. step\<^sup>*\<^sup>*
         \<lparr>lis = (\<lambda>k. Accepting), ch = (\<lambda>k. OpenChan), nlis = 2, ndead = 0, handled = [],
          fatal = False\<rparr> s
       \<and> lis s V4 = Gone \<and> ch s V4 = ClosedChan \<and> ndead s = 1 \<and> handled s = [None, None]"
proof -
  let ?s0 = "\<lparr>lis = (\<lambda>k. Accepting), ch = (\<lambda>k. OpenChan), nlis = 2, ndead = 0, handled = [],
          fatal = False\<rparr>"
  define s1 where "s1 = ?s0\<lparr>lis := (lis ?s0)(V4 := Dying), ch := (ch ?s0)(V4 := ClosedChan)\<rparr>"
  define s2 where "s2 = s1\<lparr>handled := handled s1 @ [None]\<rparr>"
  define s3 where "s3 = s2\<lparr>lis := (lis s2)(V4 := Gone), ndead := ndead s2 + 1\<rparr>"
  define s4 where "s4 = s3\<lparr>handled := handled s3 @ [None]\<rparr>"
  have st: "startMain False False (\<lambda>k. True) = Some ?s0"
    by (auto simp: startMain_def fun_eq_iff split: fam.splits)
  have "step ?s0 s1"
    unfolding s1_def by (rule step.accept_fail) simp_all
  moreover have "step s1 s2"
    unfolding s2_def by (rule step.recv_closed[where k = V4]) (simp_all add: s1_def)
  moreover have "step s2 s3"
    unfolding s3_def by (rule step.death) (simp_all add: s2_def s1_def)
  moreover have "step s3 s4"
    unfolding s4_def by (rule step.recv_closed[where k = V4]) (simp_all add: s3_def s2_def s1_def)
  ultimately have run: "step\<^sup>*\<^sup>* ?s0 s4"
    by (meson rtranclp.rtrancl_into_rtrancl rtranclp.rtrancl_refl)
  have g: "lis s4 V4 = Gone" "ndead s4 = 1" "handled s4 = [None, None]"
    by (simp_all add: s4_def s3_def s2_def s1_def)
  have "ch s4 V4 = ClosedChan"
    using nil_conn_dispatched st run g(1) by blast
  with run g show ?thesis by blast
qed

end
